theory Spec2Isabelle
  imports
    Complex_Main
    "HOL-Library.Sublist"
    "HOL-Library.Multiset"
    "HOL-Library.Char_ord"
    "HOL-Library.List_Lexorder"
begin

section \<open>Strings of the host language\<close>

text \<open>
  The application is written in TypeScript. Its strings are modelled as \<^typ>\<open>string\<close>:
  lists of characters with the codes 0 to 255, read as the code points U+0000 to U+00FF
  (Basic Latin and Latin-1 Supplement).

  \<^verbatim>\<open>toLowerCase\<close> maps the capital letters of this range, A to Z (65 to 90) and
  U+00C0 to U+00DE without the multiplication sign U+00D7, to the small letters 32 places
  further on, and leaves every other character alone.

  The class \<^verbatim>\<open>\s\<close> of regular expressions and the characters removed by \<^verbatim>\<open>trim\<close> are
  the white space and line terminators of the language; in this range they are tab, line
  feed, vertical tab, form feed, carriage return, space and the no-break space U+00A0.
\<close>

definition lowerChar :: "char \<Rightarrow> char" where
  "lowerChar c =
     (let n = (of_char c :: nat)
      in if (65 \<le> n \<and> n \<le> 90) \<or> (192 \<le> n \<and> n \<le> 222 \<and> n \<noteq> 215) then char_of (n + 32)
         else c)"

definition toLowerCase :: "string \<Rightarrow> string" where
  "toLowerCase s = map lowerChar s"

definition isSpace :: "char \<Rightarrow> bool" where
  "isSpace c = (let n = (of_char c :: nat) in (9 \<le> n \<and> n \<le> 13) \<or> n = 32 \<or> n = 160)"

text \<open>\<^verbatim>\<open>s.trim()\<close>: white space removed at both ends.\<close>

definition trim :: "string \<Rightarrow> string" where
  "trim s = rev (dropWhile isSpace (rev (dropWhile isSpace s)))"

text \<open>
  \<^verbatim>\<open>s.split(/\s+/)\<close>. The host's algorithm scans from the start \<open>p\<close> of the current
  piece for the first position \<open>q\<close> where the pattern matches; the piece \<open>s[p..q)\<close> is
  emitted and the scan resumes after the (greedy, hence maximal) whitespace run. When no
  further match exists the remainder \<open>s[p..)\<close> is the last piece. The empty string gives
  one empty piece; leading and trailing whitespace give an empty first and last piece.
\<close>

function splitWs :: "string \<Rightarrow> string list" where
  "splitWs s =
     (let piece = takeWhile (\<lambda>c. \<not> isSpace c) s;
          rest = dropWhile (\<lambda>c. \<not> isSpace c) s
      in if rest = [] then [piece] else piece # splitWs (dropWhile isSpace rest))"
  by pat_completeness auto
termination
proof (relation "measure length")
  show "wf (measure length)" by simp
next
  fix s :: string and piece rest :: string
  assume r: "rest = dropWhile (\<lambda>c. \<not> isSpace c) s" and ne: "rest \<noteq> []"
  from ne obtain c cs where rc: "rest = c # cs" by (cases rest) auto
  have "length (dropWhile isSpace rest) \<le> length rest"
    by (rule length_dropWhile_le)
  moreover have "isSpace c"
    using r rc dropWhile_eq_Cons_conv[of "\<lambda>c. \<not> isSpace c" s c cs] by simp
  then have "length (dropWhile isSpace rest) \<le> length cs"
    using rc by (simp add: length_dropWhile_le)
  moreover have "length rest \<le> length s" using r by (simp add: length_dropWhile_le)
  ultimately have "length (dropWhile isSpace rest) < length s" using rc by simp
  then show "(dropWhile isSpace rest, s) \<in> measure length" by simp
qed

declare splitWs.simps [simp del]

text \<open>\<^verbatim>\<open>s.includes(k)\<close>: \<open>k\<close> occurs in \<open>s\<close> at some position.\<close>

fun str_includes :: "string \<Rightarrow> string \<Rightarrow> bool" where
  "str_includes [] k = (k = [])"
| "str_includes (c # cs) k = (prefix k (c # cs) \<or> str_includes cs k)"

text \<open>\<^verbatim>\<open>s.split("T")[0]\<close>: the text before the first \<open>T\<close> (all of it when there is none).\<close>

definition beforeT :: "string \<Rightarrow> string" where
  "beforeT s = takeWhile (\<lambda>c. c \<noteq> CHR ''T'') s"

section \<open>Dates of the host language\<close>

text \<open>
  A \<^verbatim>\<open>Date\<close> is a number of milliseconds since 1970-01-01T00:00:00Z, or invalid
  (\<open>None\<close>). Days are counted from 1970-01-01 and converted to and from the proleptic
  Gregorian calendar. For the labels of the timeline the device's time zone is a number
  \<open>tz\<close> of minutes east of UTC, taken as constant (no daylight-saving change between the
  instants compared).
\<close>

definition msPerDay :: int where
  "msPerDay = 86400000"

definition civilFromDays :: "int \<Rightarrow> int \<times> int \<times> int" where
  "civilFromDays z0 =
     (let z = z0 + 719468;
          era = z div 146097;
          doe = z mod 146097;
          yoe = (doe - doe div 1460 + doe div 36524 - doe div 146096) div 365;
          doy = doe - (365 * yoe + yoe div 4 - yoe div 100);
          mp = (5 * doy + 2) div 153;
          d = doy - (153 * mp + 2) div 5 + 1;
          m = (if mp < 10 then mp + 3 else mp - 9);
          y = yoe + era * 400
      in (if m \<le> 2 then y + 1 else y, m, d))"

definition daysFromCivil :: "int \<Rightarrow> int \<Rightarrow> int \<Rightarrow> int" where
  "daysFromCivil y0 m d =
     (let y = (if m \<le> 2 then y0 - 1 else y0);
          era = y div 400;
          yoe = y mod 400;
          doy = (153 * (if m > 2 then m - 3 else m + 9) + 2) div 5 + d - 1;
          doe = yoe * 365 + yoe div 4 - yoe div 100 + doy
      in era * 146097 + doe - 719468)"

definition isLeapYear :: "int \<Rightarrow> bool" where
  "isLeapYear y \<longleftrightarrow> y mod 4 = 0 \<and> (y mod 100 \<noteq> 0 \<or> y mod 400 = 0)"

definition daysInMonth :: "int \<Rightarrow> int \<Rightarrow> int" where
  "daysInMonth y m =
     (if m = 2 then (if isLeapYear y then 29 else 28)
      else if m = 4 \<or> m = 6 \<or> m = 9 \<or> m = 11 then 30 else 31)"

text \<open>
  The lengths of the months counted from March (index 0) to February (index 11, with its
  leap day).
\<close>

definition monthLength :: "int \<Rightarrow> int" where
  "monthLength mp =
     (if mp = 11 then 29 else if mp = 1 \<or> mp = 3 \<or> mp = 6 \<or> mp = 8 then 30 else 31)"

definition digitChar :: "int \<Rightarrow> char" where
  "digitChar d = char_of (48 + nat d)"

definition pad2 :: "int \<Rightarrow> string" where
  "pad2 n = [digitChar (n div 10 mod 10), digitChar (n mod 10)]"

definition pad3 :: "int \<Rightarrow> string" where
  "pad3 n = digitChar (n div 100 mod 10) # pad2 n"

definition pad4 :: "int \<Rightarrow> string" where
  "pad4 n = digitChar (n div 1000 mod 10) # pad3 n"

definition pad6 :: "int \<Rightarrow> string" where
  "pad6 n = digitChar (n div 100000 mod 10) # digitChar (n div 10000 mod 10) # pad4 n"

definition isoYear :: "int \<Rightarrow> string" where
  "isoYear y =
     (if 0 \<le> y \<and> y \<le> 9999 then pad4 y
      else (if y < 0 then ''-'' else ''+'') @ pad6 \<bar>y\<bar>)"

text \<open>The calendar date \<^verbatim>\<open>YYYY-MM-DD\<close> of a day number, and a time of day.\<close>

definition dateText :: "int \<Rightarrow> string" where
  "dateText z =
     (case civilFromDays z of (y, m, d) \<Rightarrow> isoYear y @ ''-'' @ pad2 m @ ''-'' @ pad2 d)"

definition timeText :: "int \<Rightarrow> string" where
  "timeText r =
     pad2 (r div 3600000) @ '':'' @ pad2 (r div 60000 mod 60) @ '':'' @
     pad2 (r div 1000 mod 60) @ ''.'' @ pad3 (r mod 1000)"

text \<open>\<^verbatim>\<open>d.toISOString()\<close>: the UTC date and time, \<^verbatim>\<open>YYYY-MM-DDTHH:mm:ss.sssZ\<close>.\<close>

definition toISOString :: "int \<Rightarrow> string" where
  "toISOString t = dateText (t div msPerDay) @ ''T'' @ timeText (t mod msPerDay) @ ''Z''"

text \<open>\<^verbatim>\<open>d.toISOString().split("T")[0]\<close>, the UTC calendar date of an instant.\<close>

definition isoDate :: "int \<Rightarrow> string" where
  "isoDate t = beforeT (toISOString t)"

definition isDigit :: "char \<Rightarrow> bool" where
  "isDigit c = (let n = (of_char c :: nat) in 48 \<le> n \<and> n \<le> 57)"

definition digitsVal :: "string \<Rightarrow> int" where
  "digitsVal s = foldl (\<lambda>a c. 10 * a + (int (of_char c) - 48)) 0 s"

text \<open>
  The text \<^verbatim>\<open>YYYY-MM-DD\<close> of a day of the calendar, read as year, month and day.
\<close>

definition readDate :: "string \<Rightarrow> (int \<times> int \<times> int) option" where
  "readDate s =
     (if length s = 10 \<and> s ! 4 = CHR ''-'' \<and> s ! 7 = CHR ''-'' \<and>
         list_all isDigit (take 4 s) \<and> list_all isDigit (take 2 (drop 5 s)) \<and>
         list_all isDigit (drop 8 s)
      then let y = digitsVal (take 4 s); m = digitsVal (take 2 (drop 5 s));
               d = digitsVal (drop 8 s)
           in if 1 \<le> m \<and> m \<le> 12 \<and> 1 \<le> d \<and> d \<le> daysInMonth y m then Some (y, m, d)
              else None
      else None)"

text \<open>
  \<^verbatim>\<open>new Date(dateString)\<close> for a date-only text: midnight UTC of that day. Any other
  text is modelled as an invalid date; the timeline only passes the part of
  \<^verbatim>\<open>createdAt\<close> before the \<open>T\<close>.
\<close>

definition parseDate :: "string \<Rightarrow> int option" where
  "parseDate s =
     (case readDate s of
        None \<Rightarrow> None
      | Some (y, m, d) \<Rightarrow> Some (daysFromCivil y m d * msPerDay))"

text \<open>
  The time of day \<^verbatim>\<open>HH:MM:SS.SSSZ\<close> that follows the \<open>T\<close> of a timestamp, read as
  milliseconds.
\<close>

definition readTime :: "string \<Rightarrow> int option" where
  "readTime s =
     (if length s = 13 \<and> s ! 2 = CHR '':'' \<and> s ! 5 = CHR '':'' \<and> s ! 8 = CHR ''.'' \<and>
         s ! 12 = CHR ''Z'' \<and> list_all isDigit (take 2 s) \<and>
         list_all isDigit (take 2 (drop 3 s)) \<and> list_all isDigit (take 2 (drop 6 s)) \<and>
         list_all isDigit (take 3 (drop 9 s))
      then let h = digitsVal (take 2 s); mi = digitsVal (take 2 (drop 3 s));
               sec = digitsVal (take 2 (drop 6 s)); ms = digitsVal (take 3 (drop 9 s))
           in if h \<le> 23 \<and> mi \<le> 59 \<and> sec \<le> 59
              then Some (h * 3600000 + mi * 60000 + sec * 1000 + ms) else None
      else None)"

text \<open>
  \<^verbatim>\<open>new Date(text).getTime()\<close> for a timestamp as \<^verbatim>\<open>toISOString\<close> writes it; other
  text is modelled as an invalid date.
\<close>

definition parseTimestamp :: "string \<Rightarrow> int option" where
  "parseTimestamp s =
     (if length s = 24 \<and> s ! 10 = CHR ''T''
      then case (readDate (take 10 s), readTime (drop 11 s)) of
             (Some (y, m, d), Some r) \<Rightarrow> Some (daysFromCivil y m d * msPerDay + r)
           | _ \<Rightarrow> None
      else None)"

text \<open>
  SQLite's \<^verbatim>\<open>date(text)\<close> on the \<^verbatim>\<open>createdAt\<close> column: for a UTC timestamp as
  \<^verbatim>\<open>toISOString\<close> writes it, the result is its date part \<^verbatim>\<open>YYYY-MM-DD\<close>. Text of another
  shape is modelled as \<^verbatim>\<open>NULL\<close>; the application stores no such text.
\<close>

definition sqlDate :: "string \<Rightarrow> string option" where
  "sqlDate s = (case parseTimestamp s of None \<Rightarrow> None | Some t \<Rightarrow> Some (take 10 s))"

text \<open>
  The instants of the years 0000 to 9999, for which \<^verbatim>\<open>toISOString\<close> writes a year of four
  digits.
\<close>

definition fourDigitYear :: "int \<Rightarrow> bool" where
  "fourDigitYear t \<longleftrightarrow> - 62167219200000 \<le> t \<and> t < 253402300800000"

text \<open>The local calendar day (as a day number) under a constant offset, and the UTC day.\<close>

definition localDay :: "int \<Rightarrow> int \<Rightarrow> int" where
  "localDay tz t = (t + tz * 60000) div msPerDay"

definition utcDay :: "int \<Rightarrow> int" where
  "utcDay t = t div msPerDay"

text \<open>
  Where the code steps through the local calendar, the time zone is given by its offset
  from UTC in milliseconds, which may change with the instant (daylight saving): the
  offset in force at an instant, and the offset the host takes for a local time (the
  host's \<^verbatim>\<open>LocalTZA(t, true)\<close> and \<^verbatim>\<open>LocalTZA(t, false)\<close>). \<^verbatim>\<open>LocalTime\<close> and \<^verbatim>\<open>UTC\<close>
  are the conversions of the language definition. A zone of constant offset is
  \<open>fixedOffset tz\<close>, with \<open>tz\<close> in minutes east of UTC.
\<close>

record TimeZone =
  offsetAt :: "int \<Rightarrow> int"
  offsetOfLocal :: "int \<Rightarrow> int"

definition LocalTime :: "TimeZone \<Rightarrow> int \<Rightarrow> int" where
  "LocalTime z t = t + offsetAt z t"

definition UTC :: "TimeZone \<Rightarrow> int \<Rightarrow> int" where
  "UTC z t = t - offsetOfLocal z t"

definition fixedOffset :: "int \<Rightarrow> TimeZone" where
  "fixedOffset tz = \<lparr>offsetAt = (\<lambda>t. tz * 60000), offsetOfLocal = (\<lambda>t. tz * 60000)\<rparr>"

text \<open>
  \<^verbatim>\<open>d.getHours()\<close> and \<^verbatim>\<open>d.getDate()\<close> read the hour and the day of the month of the
  local time. \<^verbatim>\<open>d.setDate(dt)\<close> keeps the local year, month and time of day, takes the
  day \<open>dt\<close> of that month (counting on from the first of the month, so that day 0 is the
  last day of the month before), and converts the local time so obtained back to an
  instant.
\<close>

definition getHours :: "TimeZone \<Rightarrow> int \<Rightarrow> int" where
  "getHours z t = (LocalTime z t mod msPerDay) div 3600000"

definition getDate :: "TimeZone \<Rightarrow> int \<Rightarrow> int" where
  "getDate z t = (case civilFromDays (LocalTime z t div msPerDay) of (y, m, d) \<Rightarrow> d)"

definition setDate :: "TimeZone \<Rightarrow> int \<Rightarrow> int \<Rightarrow> int" where
  "setDate z t dt =
     (let tl = LocalTime z t
      in case civilFromDays (tl div msPerDay) of
           (y, m, d) \<Rightarrow> UTC z ((daysFromCivil y m 1 + dt - 1) * msPerDay + tl mod msPerDay))"

text \<open>
  \<^verbatim>\<open>d.toDateString()\<close> names the local calendar day of \<open>d\<close> (weekday, month, day and
  year) and nothing else, so two such texts are equal exactly when the local days are.
  The model keeps the day number in place of the text; an invalid date gives \<open>None\<close>.
\<close>

definition toDateString :: "int \<Rightarrow> int option \<Rightarrow> int option" where
  "toDateString tz d = map_option (localDay tz) d"

definition weekdayName :: "int \<Rightarrow> string" where
  "weekdayName day =
     [''Thursday'', ''Friday'', ''Saturday'', ''Sunday'', ''Monday'', ''Tuesday'',
      ''Wednesday''] ! nat (day mod 7)"

definition monthName :: "int \<Rightarrow> string" where
  "monthName m =
     [''Jan'', ''Feb'', ''Mar'', ''Apr'', ''May'', ''Jun'', ''Jul'', ''Aug'', ''Sep'',
      ''Oct'', ''Nov'', ''Dec''] ! nat (m - 1)"

fun showNat :: "nat \<Rightarrow> string" where
  "showNat n = (if n < 10 then [digitChar (int n)]
                else showNat (n div 10) @ [digitChar (int (n mod 10))])"

declare showNat.simps [simp del]

text \<open>
  \<^verbatim>\<open>d.toLocaleDateString("en-US", {weekday: "long", month: "short", day: "numeric"})\<close>,
  for instance \<^verbatim>\<open>Monday, Jan 1\<close>.
\<close>

definition longDayName :: "int \<Rightarrow> string" where
  "longDayName day =
     (case civilFromDays day of (y, m, dd) \<Rightarrow>
        weekdayName day @ '', '' @ monthName m @ '' '' @ showNat (nat dd))"

definition toLocaleDateString :: "int \<Rightarrow> int option \<Rightarrow> string" where
  "toLocaleDateString tz d =
     (case d of
        None \<Rightarrow> ''Invalid Date''
      | Some t \<Rightarrow> longDayName (localDay tz t))"




definition eraMonth :: "int \<Rightarrow> int" where
  "eraMonth m = (if m > 2 then m - 3 else m + 9)"




section \<open>The relational record store\<close>

text \<open>
  The store keeps its rows in tables of a local SQLite database. A table is modelled as
  the list of its rows in insertion (rowid) order, together with the counter SQLite keeps
  for an \<^verbatim>\<open>AUTOINCREMENT\<close> key: the largest rowid ever handed out. Text columns are
  compared bytewise, which is the order of \<^typ>\<open>string\<close> used here.
\<close>

datatype ContentType = Text | Voice | Photo | Link | Screenshot

text \<open>The argument of \<^verbatim>\<open>addMemory\<close>: a memory without \<^verbatim>\<open>id\<close>, \<^verbatim>\<open>viewCount\<close>, \<^verbatim>\<open>lastViewedAt\<close>.\<close>

record NewMemory =
  content :: string
  contentType :: ContentType
  createdAt :: string
  latitude :: "real option"
  longitude :: "real option"
  locationName :: "string option"
  audioUri :: "string option"
  imageUri :: "string option"
  linkUrl :: "string option"
  linkTitle :: "string option"
  linkPreview :: "string option"
  focusTags :: "string option"

record Memory = NewMemory +
  memoryId :: nat
  viewCount :: int
  lastViewedAt :: "string option"

text \<open>
  A record as the application writes it: \<^verbatim>\<open>createdAt\<close> is the text that \<^verbatim>\<open>toISOString\<close>
  gives for an instant (every capture screen passes \<^verbatim>\<open>new Date().toISOString()\<close>). The UTC
  day of a record is the day of that instant.
\<close>

definition appWritten :: "Memory \<Rightarrow> bool" where
  "appWritten m =
     (case parseTimestamp (createdAt m) of
        None \<Rightarrow> False
      | Some t \<Rightarrow> fourDigitYear t \<and> toISOString t = createdAt m)"

definition utcDayOf :: "Memory \<Rightarrow> int option" where
  "utcDayOf m = map_option utcDay (parseTimestamp (createdAt m))"

record FocusGoal =
  goalId :: nat
  name :: string
  isActive :: bool
  goalCreatedAt :: string

text \<open>
  \<^verbatim>\<open>Partial<Memory>\<close>, the argument of \<^verbatim>\<open>updateMemory\<close>: every field may be absent.
\<close>

record MemoryUpdates =
  u_id :: "nat option"
  u_content :: "string option"
  u_contentType :: "ContentType option"
  u_createdAt :: "string option"
  u_latitude :: "real option"
  u_longitude :: "real option"
  u_locationName :: "string option"
  u_audioUri :: "string option"
  u_imageUri :: "string option"
  u_linkUrl :: "string option"
  u_linkTitle :: "string option"
  u_linkPreview :: "string option"
  u_focusTags :: "string option"
  u_viewCount :: "int option"
  u_lastViewedAt :: "string option"

record Store =
  memories :: "Memory list"
  memories_seq :: nat
  focus_goals :: "FocusGoal list"
  focus_goals_seq :: nat

text \<open>The tables as \<^verbatim>\<open>initDatabase\<close> creates them.\<close>

definition initDatabase :: Store where
  "initDatabase = \<lparr>memories = [], memories_seq = 0, focus_goals = [], focus_goals_seq = 0\<rparr>"

text \<open>
  The rowid of an inserted row under \<^verbatim>\<open>AUTOINCREMENT\<close>: one more than the largest rowid
  that ever existed in the table.
\<close>

definition nextRowid :: "nat \<Rightarrow> nat list \<Rightarrow> nat" where
  "nextRowid seq ids = Suc (fold max ids seq)"

text \<open>
  \<^verbatim>\<open>ORDER BY key DESC\<close>: rows with the larger key first; rows with equal keys are kept
  in rowid order.
\<close>

fun insertDesc :: "('a \<Rightarrow> 'k::linorder) \<Rightarrow> 'a \<Rightarrow> 'a list \<Rightarrow> 'a list" where
  "insertDesc f x [] = [x]"
| "insertDesc f x (y # ys) = (if f y \<le> f x then x # y # ys else y # insertDesc f x ys)"

definition orderByDesc :: "('a \<Rightarrow> 'k::linorder) \<Rightarrow> 'a list \<Rightarrow> 'a list" where
  "orderByDesc f xs = foldr (insertDesc f) xs []"

text \<open>
  The store's functions return a promise; a rejected promise is the \<open>Inl\<close> of the
  result. None of \<^verbatim>\<open>addMemory\<close>, \<^verbatim>\<open>updateMemory\<close> and \<^verbatim>\<open>deleteMemory\<close> has a statement
  that rejects: they check nothing before their one SQL statement, and a \<^verbatim>\<open>WHERE\<close>
  clause that selects no row is not an error of the database. Failures of the storage
  itself are outside the model.
\<close>

datatype StoreError = ValidationError | NotFoundError

text \<open>
  \<^verbatim>\<open>addMemory\<close>: one \<^verbatim>\<open>INSERT\<close> of the twelve given columns. \<^verbatim>\<open>viewCount\<close> takes its
  column default 0 and \<^verbatim>\<open>lastViewedAt\<close> stays \<^verbatim>\<open>NULL\<close>. The function checks nothing
  about its argument. It returns \<^verbatim>\<open>lastInsertRowId\<close>.
\<close>

definition insertedRow :: "nat \<Rightarrow> NewMemory \<Rightarrow> Memory" where
  "insertedRow rowid memory =
     \<lparr>content = content memory, contentType = contentType memory,
      createdAt = createdAt memory, latitude = latitude memory,
      longitude = longitude memory, locationName = locationName memory,
      audioUri = audioUri memory, imageUri = imageUri memory,
      linkUrl = linkUrl memory, linkTitle = linkTitle memory,
      linkPreview = linkPreview memory, focusTags = focusTags memory,
      memoryId = rowid, viewCount = 0, lastViewedAt = None\<rparr>"

definition addMemory :: "NewMemory \<Rightarrow> Store \<Rightarrow> StoreError + nat \<times> Store" where
  "addMemory memory s =
     (let rowid = nextRowid (memories_seq s) (map memoryId (memories s))
      in Inr (rowid, s\<lparr>memories := memories s @ [insertedRow rowid memory],
                        memories_seq := rowid\<rparr>))"

definition getAllMemories :: "Store \<Rightarrow> Memory list" where
  "getAllMemories s = orderByDesc createdAt (memories s)"

definition getRecentMemories :: "nat \<Rightarrow> Store \<Rightarrow> Memory list" where
  "getRecentMemories limit s = take limit (orderByDesc createdAt (memories s))"

text \<open>
  \<^verbatim>\<open>updateMemory\<close>: every entry of the argument except \<^verbatim>\<open>id\<close> becomes one assignment
  of the \<^verbatim>\<open>SET\<close> clause. Without assignments no statement is run. Otherwise the
  \<^verbatim>\<open>UPDATE ... WHERE id = ?\<close> rewrites the rows with that id, which may be none.
\<close>

definition hasAssignments :: "MemoryUpdates \<Rightarrow> bool" where
  "hasAssignments u \<longleftrightarrow>
     u_content u \<noteq> None \<or> u_contentType u \<noteq> None \<or> u_createdAt u \<noteq> None \<or>
     u_latitude u \<noteq> None \<or> u_longitude u \<noteq> None \<or> u_locationName u \<noteq> None \<or>
     u_audioUri u \<noteq> None \<or> u_imageUri u \<noteq> None \<or> u_linkUrl u \<noteq> None \<or>
     u_linkTitle u \<noteq> None \<or> u_linkPreview u \<noteq> None \<or> u_focusTags u \<noteq> None \<or>
     u_viewCount u \<noteq> None \<or> u_lastViewedAt u \<noteq> None"

definition assign :: "'a option \<Rightarrow> 'a \<Rightarrow> 'a" where
  "assign v old = (case v of None \<Rightarrow> old | Some new \<Rightarrow> new)"

definition assignOpt :: "'a option \<Rightarrow> 'a option \<Rightarrow> 'a option" where
  "assignOpt v old = (case v of None \<Rightarrow> old | Some new \<Rightarrow> Some new)"

definition applyUpdates :: "MemoryUpdates \<Rightarrow> Memory \<Rightarrow> Memory" where
  "applyUpdates u m =
     \<lparr>content = assign (u_content u) (content m),
      contentType = assign (u_contentType u) (contentType m),
      createdAt = assign (u_createdAt u) (createdAt m),
      latitude = assignOpt (u_latitude u) (latitude m),
      longitude = assignOpt (u_longitude u) (longitude m),
      locationName = assignOpt (u_locationName u) (locationName m),
      audioUri = assignOpt (u_audioUri u) (audioUri m),
      imageUri = assignOpt (u_imageUri u) (imageUri m),
      linkUrl = assignOpt (u_linkUrl u) (linkUrl m),
      linkTitle = assignOpt (u_linkTitle u) (linkTitle m),
      linkPreview = assignOpt (u_linkPreview u) (linkPreview m),
      focusTags = assignOpt (u_focusTags u) (focusTags m),
      memoryId = memoryId m,
      viewCount = assign (u_viewCount u) (viewCount m),
      lastViewedAt = assignOpt (u_lastViewedAt u) (lastViewedAt m)\<rparr>"

definition updateMemory :: "nat \<Rightarrow> MemoryUpdates \<Rightarrow> Store \<Rightarrow> StoreError + Store" where
  "updateMemory i updates s =
     (if hasAssignments updates
      then Inr (s\<lparr>memories :=
                  map (\<lambda>m. if memoryId m = i then applyUpdates updates m else m) (memories s)\<rparr>)
      else Inr s)"

definition deleteMemory :: "nat \<Rightarrow> Store \<Rightarrow> StoreError + Store" where
  "deleteMemory i s = Inr (s\<lparr>memories := filter (\<lambda>m. memoryId m \<noteq> i) (memories s)\<rparr>)"

definition incrementViewCount :: "string \<Rightarrow> nat \<Rightarrow> Store \<Rightarrow> Store" where
  "incrementViewCount nowIso i s =
     s\<lparr>memories :=
         map (\<lambda>m. if memoryId m = i
                   then m\<lparr>viewCount := viewCount m + 1, lastViewedAt := Some nowIso\<rparr> else m)
           (memories s)\<rparr>"

definition getFocusGoals :: "Store \<Rightarrow> FocusGoal list" where
  "getFocusGoals s = orderByDesc goalCreatedAt (focus_goals s)"

text \<open>
  \<^verbatim>\<open>addFocusGoal\<close>: the new row has \<^verbatim>\<open>isActive\<close> at its column default 0. The second
  argument is the text of \<^verbatim>\<open>new Date().toISOString()\<close> at the call.
\<close>

definition addFocusGoal :: "string \<Rightarrow> string \<Rightarrow> Store \<Rightarrow> nat \<times> Store" where
  "addFocusGoal nm nowIso s =
     (let rowid = nextRowid (focus_goals_seq s) (map goalId (focus_goals s));
          row = \<lparr>goalId = rowid, name = nm, isActive = False, goalCreatedAt = nowIso\<rparr>
      in (rowid, s\<lparr>focus_goals := focus_goals s @ [row], focus_goals_seq := rowid\<rparr>))"

text \<open>
  \<^verbatim>\<open>setActiveFocusGoal\<close>: first every row is set inactive; then, unless the argument is
  \<^verbatim>\<open>null\<close>, the rows with the given id are set active.
\<close>

definition setActiveFocusGoal :: "nat option \<Rightarrow> Store \<Rightarrow> Store" where
  "setActiveFocusGoal i s =
     (let s1 = s\<lparr>focus_goals := map (\<lambda>g. g\<lparr>isActive := False\<rparr>) (focus_goals s)\<rparr>
      in case i of
           None \<Rightarrow> s1
         | Some j \<Rightarrow>
             s1\<lparr>focus_goals :=
                  map (\<lambda>g. if goalId g = j then g\<lparr>isActive := True\<rparr> else g) (focus_goals s1)\<rparr>)"

definition deleteFocusGoal :: "nat \<Rightarrow> Store \<Rightarrow> Store" where
  "deleteFocusGoal i s = s\<lparr>focus_goals := filter (\<lambda>g. goalId g \<noteq> i) (focus_goals s)\<rparr>"

text \<open>
  The primary keys of the two tables: no two rows of a table share an id. The database
  enforces it.
\<close>

definition primaryKeys :: "Store \<Rightarrow> bool" where
  "primaryKeys s \<longleftrightarrow>
     distinct (map memoryId (memories s)) \<and> distinct (map goalId (focus_goals s))"

definition activeGoals :: "FocusGoal list \<Rightarrow> FocusGoal list" where
  "activeGoals gs = filter isActive gs"

definition atMostOneActive :: "Store \<Rightarrow> bool" where
  "atMostOneActive s \<longleftrightarrow> length (activeGoals (focus_goals s)) \<le> 1"

section \<open>Capture of a text note\<close>

text \<open>
  \<^verbatim>\<open>handleSave\<close> of the text input screen. A note that is empty after trimming is
  refused with an alert before the store is called. Otherwise the trimmed text is
  stored with the current time and, when known, the location; a rejected
  \<^verbatim>\<open>addMemory\<close> ends in the error alert.
\<close>

datatype Alert = Alert string string

definition handleSave ::
  "string \<Rightarrow> string \<Rightarrow> (real \<times> real) option \<Rightarrow> Store \<Rightarrow> Alert + Store" where
  "handleSave text nowIso location s =
     (if trim text = [] then Inl (Alert ''Empty Note'' ''Please write something before saving.'')
      else case addMemory
                  \<lparr>content = trim text, contentType = Text, createdAt = nowIso,
                   latitude = map_option fst location, longitude = map_option snd location,
                   locationName = None, audioUri = None, imageUri = None, linkUrl = None,
                   linkTitle = None, linkPreview = None, focusTags = None\<rparr> s of
             Inl e \<Rightarrow> Inl (Alert ''Error'' ''Failed to save note. Please try again.'')
           | Inr (i, s') \<Rightarrow> Inr s')"

section \<open>Aggregate queries\<close>

text \<open>
  In the queries below \<open>now\<close> is the reading of the clock by \<^verbatim>\<open>new Date()\<close>, and \<open>z\<close>
  is the time zone of the device. The day before is reached with
  \<^verbatim>\<open>setDate(getDate() - 1)\<close>: the same local time on the previous local calendar day.
\<close>

definition getTodayMemoryCount :: "int \<Rightarrow> Store \<Rightarrow> nat" where
  "getTodayMemoryCount now s =
     (let today = isoDate now
      in length (filter (\<lambda>m. sqlDate (createdAt m) = Some today) (memories s)))"

definition getMorningMemories :: "TimeZone \<Rightarrow> int \<Rightarrow> Store \<Rightarrow> Memory list" where
  "getMorningMemories z now s =
     (let yesterday = setDate z now (getDate z now - 1);
          yesterdayStr = isoDate yesterday
      in take 5 (orderByDesc createdAt
                   (filter (\<lambda>m. sqlDate (createdAt m) = Some yesterdayStr) (memories s))))"

definition getFrequentlyViewedMemories :: "Store \<Rightarrow> Memory list" where
  "getFrequentlyViewedMemories s =
     take 5 (orderByDesc viewCount (filter (\<lambda>m. viewCount m > 0) (memories s)))"

section \<open>Derived views\<close>

subsection \<open>Contextual suggestions\<close>

text \<open>
  The suggestions of \<^verbatim>\<open>loadData\<close> on the Discover screen, for the local hour \<open>hour\<close>
  that \<^verbatim>\<open>new Date().getHours()\<close> returned. \<^verbatim>\<open>loadData\<close> reads the clock for the hour
  (\<open>now\<close>), and \<^verbatim>\<open>getMorningMemories\<close> reads it again (\<open>now'\<close>).
\<close>

definition suggestionsAt :: "int \<Rightarrow> TimeZone \<Rightarrow> int \<Rightarrow> Store \<Rightarrow> Memory list" where
  "suggestionsAt hour z now s =
     (let memorySuggestions =
            (if hour < 12 then getMorningMemories z now s
             else if hour < 17 then getRecentMemories 5 s
             else getFrequentlyViewedMemories s)
      in if length memorySuggestions = 0 then getRecentMemories 5 s else memorySuggestions)"


subsection \<open>Timeline grouping\<close>

record GroupedMemories =
  date :: string
  formattedDate :: string
  data :: "Memory list"

definition formatDate :: "int \<Rightarrow> int \<Rightarrow> string \<Rightarrow> string" where
  "formatDate tz now dateString =
     (let date' = parseDate dateString;
          today = now;
          yesterday = today - msPerDay
      in if toDateString tz date' = toDateString tz (Some today) then ''Today''
         else if toDateString tz date' = toDateString tz (Some yesterday) then ''Yesterday''
         else toLocaleDateString tz date')"

text \<open>
  The object \<^verbatim>\<open>groups\<close> as the list of its entries in the order the keys were added.
  A memory is pushed to the array of its key, which is created on first use.
\<close>

fun pushGroup :: "string \<Rightarrow> Memory \<Rightarrow> (string \<times> Memory list) list \<Rightarrow> (string \<times> Memory list) list"
  where
  "pushGroup k memory [] = [(k, [memory])]"
| "pushGroup k memory ((k', ms) # groups) =
     (if k' = k then (k', ms @ [memory]) # groups else (k', ms) # pushGroup k memory groups)"

definition dateKey :: "Memory \<Rightarrow> string" where
  "dateKey memory = beforeT (createdAt memory)"

definition groupsOf :: "Memory list \<Rightarrow> (string \<times> Memory list) list" where
  "groupsOf mems = foldl (\<lambda>groups memory. pushGroup (dateKey memory) memory groups) [] mems"

text \<open>
  The entries are sorted with \<^verbatim>\<open>b[0].localeCompare(a[0])\<close>, that is by key, descending. On
  date texts \<^verbatim>\<open>YYYY-MM-DD\<close> the comparison is the order of \<^typ>\<open>string\<close>.
\<close>

definition groupMemoriesByDate :: "int \<Rightarrow> int \<Rightarrow> Memory list \<Rightarrow> GroupedMemories list" where
  "groupMemoriesByDate tz now mems =
     map (\<lambda>(d, ms). \<lparr>date = d, formattedDate = formatDate tz now d, data = ms\<rparr>)
       (orderByDesc fst (groupsOf mems))"

subsection \<open>Focus filtering\<close>

definition matchesKeywords :: "string list \<Rightarrow> Memory \<Rightarrow> bool" where
  "matchesKeywords keywords memory =
     (let contentL = toLowerCase (content memory);
          tagsL = (case focusTags memory of None \<Rightarrow> [] | Some t \<Rightarrow> toLowerCase t)
      in list_ex (\<lambda>keyword. str_includes contentL keyword \<or> str_includes tagsL keyword) keywords)"

definition filterMemories :: "string \<Rightarrow> Store \<Rightarrow> Memory list" where
  "filterMemories goalName s =
     (let allMemories = getAllMemories s;
          keywords = splitWs (toLowerCase goalName)
      in filter (matchesKeywords keywords) allMemories)"

section \<open>The reducer-based store\<close>

text \<open>
  The second store keeps \<^verbatim>\<open>{items, focusGoal}\<close> in memory. Its items carry a title and a
  list of tags; the field \<^verbatim>\<open>metadata\<close> plays no part in the views and is left out.
\<close>

record MemoryItem =
  itemId :: string
  itemType :: ContentType
  title :: string
  itemContent :: string
  itemCreatedAt :: string
  location :: "string option"
  tags :: "string list option"

definition itemMatches :: "string \<Rightarrow> MemoryItem \<Rightarrow> bool" where
  "itemMatches lowerGoal item \<longleftrightarrow>
     str_includes (toLowerCase (title item)) lowerGoal \<or>
     (case tags item of
        None \<Rightarrow> False
      | Some ts \<Rightarrow> list_ex (\<lambda>tag. str_includes (toLowerCase tag) lowerGoal) ts)"

definition filteredItems :: "string option \<Rightarrow> MemoryItem list \<Rightarrow> MemoryItem list" where
  "filteredItems focusGoal items =
     (case focusGoal of
        None \<Rightarrow> items
      | Some g \<Rightarrow>
          if g = [] then items
          else let lowerGoal = toLowerCase g in filter (itemMatches lowerGoal) items)"

datatype TimeBucket = Morning | Afternoon | Evening | Night

definition getTimeBucket :: "int \<Rightarrow> TimeBucket" where
  "getTimeBucket hour =
     (if hour < 12 then Morning else if hour < 17 then Afternoon
      else if hour < 21 then Evening else Night)"

definition isWithinHours :: "int \<Rightarrow> MemoryItem \<Rightarrow> int \<Rightarrow> bool" where
  "isWithinHours now item hours =
     (case parseTimestamp (itemCreatedAt item) of
        None \<Rightarrow> False
      | Some t \<Rightarrow> now - t < hours * 60 * 60 * 1000)"

definition getSmartSuggestions :: "int \<Rightarrow> int \<Rightarrow> MemoryItem list \<Rightarrow> MemoryItem list" where
  "getSmartSuggestions hour now items =
     (let bucket = getTimeBucket hour;
          suggestions =
            (if bucket = Morning then filter (\<lambda>item. isWithinHours now item 24) items
             else if bucket = Evening then filter (\<lambda>item. isWithinHours now item 48) items
             else take 3 items)
      in take 4 suggestions)"

text \<open>
  For comparing the two stores: an item stands for a row when its title is the row's
  content and its tags are the row's tag text as one tag (or both have no tags).
\<close>

definition sameRecord :: "Memory \<Rightarrow> MemoryItem \<Rightarrow> bool" where
  "sameRecord m item \<longleftrightarrow>
     title item = content m \<and> itemContent item = content m \<and>
     itemType item = contentType m \<and> itemCreatedAt item = createdAt m \<and>
     tags item = map_option (\<lambda>t. [t]) (focusTags m)"

section \<open>Sample values\<close>

text \<open>Values used in the worked examples: an update without entries and a plain text note.\<close>

definition emptyUpdates :: MemoryUpdates where
  "emptyUpdates = \<lparr>u_id = None, u_content = None, u_contentType = None, u_createdAt = None,
     u_latitude = None, u_longitude = None, u_locationName = None, u_audioUri = None,
     u_imageUri = None, u_linkUrl = None, u_linkTitle = None, u_linkPreview = None,
     u_focusTags = None, u_viewCount = None, u_lastViewedAt = None\<rparr>"

definition newText :: "string \<Rightarrow> string \<Rightarrow> NewMemory" where
  "newText c t = \<lparr>content = c, contentType = Text, createdAt = t, latitude = None,
     longitude = None, locationName = None, audioUri = None, imageUri = None, linkUrl = None,
     linkTitle = None, linkPreview = None, focusTags = None\<rparr>"

text \<open>A store with the two goals "work" and "travel", added in this order.\<close>

definition twoGoals :: Store where
  "twoGoals =
     snd (addFocusGoal ''travel'' ''2024-01-02T09:00:00.000Z''
            (snd (addFocusGoal ''work'' ''2024-01-01T09:00:00.000Z'' initDatabase)))"

text \<open>Two stored notes: one tagged "travel-plans", one that only says "personal".\<close>

definition travelNote :: Memory where
  "travelNote = insertedRow 1 ((newText ''Book flights'' ''2024-01-01T08:00:00.000Z'')
                                 \<lparr>focusTags := Some ''travel-plans''\<rparr>)"

definition personalNote :: Memory where
  "personalNote = insertedRow 2 ((newText ''personal'' ''2024-01-01T09:00:00.000Z'')
                                   \<lparr>focusTags := Some ''personal''\<rparr>)"

definition twoNotes :: Store where
  "twoNotes = \<lparr>memories = [travelNote, personalNote], memories_seq = 2,
                focus_goals = [], focus_goals_seq = 0\<rparr>"

text \<open>
  The store after a successful \<^verbatim>\<open>addMemory\<close>; a store with the note "Buy milk" captured
  at 2024-01-01T08:00:00Z; and a store with three notes, two captured on 2024-01-01 and one
  on 2023-12-31.
\<close>

definition storeAfterAdd :: "NewMemory \<Rightarrow> Store \<Rightarrow> Store" where
  "storeAfterAdd memory s = (case addMemory memory s of Inl e \<Rightarrow> s | Inr (i, s') \<Rightarrow> s')"

definition milkStore :: Store where
  "milkStore = storeAfterAdd (newText ''Buy milk'' (toISOString 1704096000000)) initDatabase"


text \<open>
  For the comparison of the two stores: a store with the single note "travel", the items
  that stand for the two sample notes (most recent first), and an item that stands for the
  note "travel".
\<close>

definition oneTravel :: Store where
  "oneTravel = storeAfterAdd (newText ''travel'' ''2024-01-01T08:00:00.000Z'') initDatabase"

definition twoItems :: "MemoryItem list" where
  "twoItems =
     [\<lparr>itemId = ''p'', itemType = Text, title = ''personal'', itemContent = ''personal'',
       itemCreatedAt = ''2024-01-01T09:00:00.000Z'', location = None,
       tags = Some [''personal'']\<rparr>,
      \<lparr>itemId = ''t'', itemType = Text, title = ''Book flights'',
       itemContent = ''Book flights'', itemCreatedAt = ''2024-01-01T08:00:00.000Z'',
       location = None, tags = Some [''travel-plans'']\<rparr>]"

definition travelItem :: MemoryItem where
  "travelItem = \<lparr>itemId = ''a'', itemType = Text, title = ''travel'', itemContent = ''travel'',
     itemCreatedAt = ''2024-01-01T08:00:00.000Z'', location = None, tags = None\<rparr>"

text \<open>
  Texts with characters beyond ASCII: the no-break space U+00A0; the word "cafe" with an
  acute accent on its last letter, in capitals (ending in U+00C9) and in small letters
  (ending in U+00E9); and a store with the one note that is this word in small letters.
\<close>

definition nbsp :: char where
  "nbsp = CHR 0xA0"

definition cafeCapitals :: string where
  "cafeCapitals = ''CAF'' @ [CHR 0xC9]"

definition cafeSmall :: string where
  "cafeSmall = ''caf'' @ [CHR 0xE9]"

definition cafeStore :: Store where
  "cafeStore = storeAfterAdd (newText cafeSmall ''2024-01-01T08:00:00.000Z'') initDatabase"


text \<open>
  A zone with a change of offset: eleven hours east of UTC until 2024-04-06T16:00:00Z
  (03:00 local time on 7 April), ten hours from then on, as in Sydney. Local times up to
  that 03:00 are taken with the earlier offset.
\<close>

definition sydney :: TimeZone where
  "sydney =
     \<lparr>offsetAt = (\<lambda>t. if t < 1712419200000 then 39600000 else 36000000),
      offsetOfLocal = (\<lambda>t. if t < 1712458800000 then 39600000 else 36000000)\<rparr>"


section \<open>Row ids\<close>

lemma fold_max_ge: "(a::nat) \<le> fold max xs a"
  by (induction xs arbitrary: a) (auto intro: order_trans[OF max.cobounded2])

lemma fold_max_mem: "x \<in> set xs \<Longrightarrow> (x::nat) \<le> fold max xs a"
proof (induction xs arbitrary: a)
  case Nil
  then show ?case by simp
next
  case (Cons y ys)
  show ?case
  proof (cases "x = y")
    case True
    have "max y a \<le> fold max ys (max y a)" by (rule fold_max_ge)
    with True show ?thesis by simp
  next
    case False
    with Cons show ?thesis by simp
  qed
qed

lemma nextRowid_fresh: "nextRowid seq ids \<notin> set ids"
  using fold_max_mem[of "nextRowid seq ids" ids seq] by (auto simp: nextRowid_def)

lemma nextRowid_gt_seq: "seq < nextRowid seq ids"
  using fold_max_ge[of seq ids] by (simp add: nextRowid_def)

section \<open>Deleting a memory\<close>

text \<open>
  Claim C8. \<^verbatim>\<open>deleteMemory(id)\<close> is idempotent: for every store and every id the call
  succeeds, a second call on the resulting store succeeds as well and leaves that store
  as it is; and deleting an id that no row carries succeeds and changes nothing.
\<close>

theorem deleteMemory_idempotent:
  "(\<exists>s'. deleteMemory i s = Inr s' \<and> deleteMemory i s' = Inr s') \<and>
   (i \<notin> memoryId ` set (memories s) \<longrightarrow> deleteMemory i s = Inr s)"
proof
  show "\<exists>s'. deleteMemory i s = Inr s' \<and> deleteMemory i s' = Inr s'"
    by (simp add: deleteMemory_def)
next
  show "i \<notin> memoryId ` set (memories s) \<longrightarrow> deleteMemory i s = Inr s"
  proof
    assume "i \<notin> memoryId ` set (memories s)"
    then have "filter (\<lambda>m. memoryId m \<noteq> i) (memories s) = memories s"
      by (auto simp: filter_id_conv)
    then show "deleteMemory i s = Inr s" by (simp add: deleteMemory_def)
  qed
qed

theorem deleteMemory_idempotent_witness:
  "7 \<notin> memoryId ` set (memories initDatabase) \<and> deleteMemory 7 initDatabase = Inr initDatabase"
  using deleteMemory_idempotent[of 7 initDatabase] by (simp add: initDatabase_def)

section \<open>Updating a memory\<close>

text \<open>
  Claim C7, as stated, has \<^verbatim>\<open>updateMemory\<close> fail with a not-found error when no row
  carries the id. It does not: on the empty table an update of the content of row 7
  succeeds and leaves the store as it was.
\<close>

theorem updateMemory_counterexample:
  "7 \<notin> memoryId ` set (memories initDatabase) \<and>
   updateMemory 7 (emptyUpdates\<lparr>u_content := Some ''x''\<rparr>) initDatabase = Inr initDatabase"
  by (simp add: updateMemory_def hasAssignments_def emptyUpdates_def initDatabase_def)

text \<open>
  Claim C7, amended. \<^verbatim>\<open>updateMemory(id, partialFields)\<close> never fails. It leaves the
  store unchanged when \<^verbatim>\<open>partialFields\<close> has no entry other than \<^verbatim>\<open>id\<close>, and also
  when no row carries the id.
\<close>

theorem updateMemory_never_fails:
  "(\<exists>s'. updateMemory i updates s = Inr s') \<and>
   (\<not> hasAssignments updates \<longrightarrow> updateMemory i updates s = Inr s) \<and>
   (i \<notin> memoryId ` set (memories s) \<longrightarrow> updateMemory i updates s = Inr s)"
proof (intro conjI impI)
  show "\<exists>s'. updateMemory i updates s = Inr s'"
    by (simp add: updateMemory_def)
next
  assume "\<not> hasAssignments updates"
  then show "updateMemory i updates s = Inr s" by (simp add: updateMemory_def)
next
  assume "i \<notin> memoryId ` set (memories s)"
  then have "map (\<lambda>m. if memoryId m = i then applyUpdates updates m else m) (memories s) = memories s"
    by (intro map_idI) auto
  then show "updateMemory i updates s = Inr s" by (simp add: updateMemory_def)
qed

theorem updateMemory_never_fails_witness:
  "\<not> hasAssignments (emptyUpdates\<lparr>u_id := Some 3\<rparr>) \<and>
   updateMemory 1 (emptyUpdates\<lparr>u_id := Some 3\<rparr>) initDatabase = Inr initDatabase \<and>
   2 \<notin> memoryId ` set (memories initDatabase) \<and>
   updateMemory 2 (emptyUpdates\<lparr>u_viewCount := Some 4\<rparr>) initDatabase = Inr initDatabase"
  using updateMemory_never_fails[of 1 "emptyUpdates\<lparr>u_id := Some 3\<rparr>" initDatabase]
    updateMemory_never_fails[of 2 "emptyUpdates\<lparr>u_viewCount := Some 4\<rparr>" initDatabase]
  by (simp add: hasAssignments_def emptyUpdates_def initDatabase_def)

section \<open>Adding a memory\<close>

text \<open>
  Claim C1, as stated, has \<^verbatim>\<open>addMemory\<close> fail with a validation error, inserting
  nothing, when the content is empty and no media reference is given. It does not: such
  an input is inserted into the empty store as row 1.
\<close>

theorem addMemory_counterexample:
  "content (newText '''' ''2024-01-01T08:00:00.000Z'') = '''' \<and>
   audioUri (newText '''' ''2024-01-01T08:00:00.000Z'') = None \<and>
   imageUri (newText '''' ''2024-01-01T08:00:00.000Z'') = None \<and>
   linkUrl (newText '''' ''2024-01-01T08:00:00.000Z'') = None \<and>
   (\<exists>s'. addMemory (newText '''' ''2024-01-01T08:00:00.000Z'') initDatabase = Inr (1, s') \<and>
         length (memories s') = 1)"
  by (simp add: addMemory_def newText_def initDatabase_def nextRowid_def insertedRow_def Let_def)

text \<open>
  Claim C1, amended. \<^verbatim>\<open>addMemory\<close> validates nothing: for every input it inserts one
  row with the given fields, a fresh id (carried by no row, and larger than any id handed
  out before) and \<^verbatim>\<open>viewCount\<close> 0, and returns that id. Empty input is refused one
  level up: \<^verbatim>\<open>handleSave\<close> of the text screen shows an alert and does not call the store
  when the note is empty after trimming, and otherwise stores the trimmed note.
\<close>

theorem addMemory_inserts:
  "(\<exists>rowid.
      addMemory memory s =
        Inr (rowid, s\<lparr>memories := memories s @ [insertedRow rowid memory],
                      memories_seq := rowid\<rparr>) \<and>
      rowid \<notin> memoryId ` set (memories s) \<and> memories_seq s < rowid \<and>
      memoryId (insertedRow rowid memory) = rowid \<and>
      viewCount (insertedRow rowid memory) = 0 \<and>
      content (insertedRow rowid memory) = content memory \<and>
      contentType (insertedRow rowid memory) = contentType memory \<and>
      createdAt (insertedRow rowid memory) = createdAt memory) \<and>
   (trim body = [] \<longrightarrow>
      handleSave body nowIso loc s =
        Inl (Alert ''Empty Note'' ''Please write something before saving.'')) \<and>
   (trim body \<noteq> [] \<longrightarrow>
      (\<exists>s' row. handleSave body nowIso loc s = Inr s' \<and>
         memories s' = memories s @ [row] \<and> content row = trim body \<and>
         contentType row = Text \<and> createdAt row = nowIso \<and> viewCount row = 0))"
proof (intro conjI impI)
  let ?rowid = "nextRowid (memories_seq s) (map memoryId (memories s))"
  have "?rowid \<notin> memoryId ` set (memories s)"
    using nextRowid_fresh[of "memories_seq s" "map memoryId (memories s)"] by simp
  moreover have "memories_seq s < ?rowid" by (rule nextRowid_gt_seq)
  ultimately show "\<exists>rowid.
      addMemory memory s =
        Inr (rowid, s\<lparr>memories := memories s @ [insertedRow rowid memory],
                      memories_seq := rowid\<rparr>) \<and>
      rowid \<notin> memoryId ` set (memories s) \<and> memories_seq s < rowid \<and>
      memoryId (insertedRow rowid memory) = rowid \<and>
      viewCount (insertedRow rowid memory) = 0 \<and>
      content (insertedRow rowid memory) = content memory \<and>
      contentType (insertedRow rowid memory) = contentType memory \<and>
      createdAt (insertedRow rowid memory) = createdAt memory"
    by (intro exI[of _ ?rowid]) (simp add: addMemory_def insertedRow_def Let_def)
next
  assume "trim body = []"
  then show "handleSave body nowIso loc s =
        Inl (Alert ''Empty Note'' ''Please write something before saving.'')"
    by (simp add: handleSave_def)
next
  assume "trim body \<noteq> []"
  then show "\<exists>s' row. handleSave body nowIso loc s = Inr s' \<and>
         memories s' = memories s @ [row] \<and> content row = trim body \<and>
         contentType row = Text \<and> createdAt row = nowIso \<and> viewCount row = 0"
    by (simp add: handleSave_def addMemory_def insertedRow_def Let_def)
qed

theorem addMemory_inserts_witness:
  "trim ''  '' = [] \<and>
   handleSave ''  '' ''2024-01-01T08:00:00.000Z'' None initDatabase =
     Inl (Alert ''Empty Note'' ''Please write something before saving.'') \<and>
   trim [nbsp] = [] \<and>
   handleSave [nbsp] ''2024-01-01T08:00:00.000Z'' None initDatabase =
     Inl (Alert ''Empty Note'' ''Please write something before saving.'') \<and>
   trim '' Buy milk '' \<noteq> [] \<and>
   (\<exists>s'. handleSave '' Buy milk '' ''2024-01-01T08:00:00.000Z'' None initDatabase = Inr s' \<and>
      map content (memories s') = [''Buy milk''] \<and> map viewCount (memories s') = [0])"
proof -
  have a: "trim ''  '' = []" by code_simp
  have b: "trim [nbsp] = []" by code_simp
  have c: "trim '' Buy milk '' = ''Buy milk''" by code_simp
  note t1 = addMemory_inserts[where body = "''  ''" and nowIso = "''2024-01-01T08:00:00.000Z''"
      and loc = None and s = initDatabase and memory = "newText [] []"]
  note t2 = addMemory_inserts[where body = "[nbsp]" and nowIso = "''2024-01-01T08:00:00.000Z''"
      and loc = None and s = initDatabase and memory = "newText [] []"]
  note t3 = addMemory_inserts[where body = "'' Buy milk ''"
      and nowIso = "''2024-01-01T08:00:00.000Z''" and loc = None and s = initDatabase
      and memory = "newText [] []"]
  have "trim ''  '' = [] \<longrightarrow>
      handleSave ''  '' ''2024-01-01T08:00:00.000Z'' None initDatabase =
        Inl (Alert ''Empty Note'' ''Please write something before saving.'')"
    using t1 by (elim conjE)
  then have r1: "handleSave ''  '' ''2024-01-01T08:00:00.000Z'' None initDatabase =
        Inl (Alert ''Empty Note'' ''Please write something before saving.'')"
    using a by (rule mp)
  have "trim [nbsp] = [] \<longrightarrow>
      handleSave [nbsp] ''2024-01-01T08:00:00.000Z'' None initDatabase =
        Inl (Alert ''Empty Note'' ''Please write something before saving.'')"
    using t2 by (elim conjE)
  then have r2: "handleSave [nbsp] ''2024-01-01T08:00:00.000Z'' None initDatabase =
        Inl (Alert ''Empty Note'' ''Please write something before saving.'')"
    using b by (rule mp)
  have "trim '' Buy milk '' \<noteq> [] \<longrightarrow>
      (\<exists>s' row. handleSave '' Buy milk '' ''2024-01-01T08:00:00.000Z'' None initDatabase = Inr s' \<and>
         memories s' = memories initDatabase @ [row] \<and> content row = trim '' Buy milk '' \<and>
         contentType row = Text \<and> createdAt row = ''2024-01-01T08:00:00.000Z'' \<and>
         viewCount row = 0)"
    using t3 by (elim conjE)
  then obtain s' row where
    "handleSave '' Buy milk '' ''2024-01-01T08:00:00.000Z'' None initDatabase = Inr s'"
    "memories s' = memories initDatabase @ [row]" "content row = trim '' Buy milk ''"
    "viewCount row = 0"
    using c by auto
  then have r3: "\<exists>s'. handleSave '' Buy milk '' ''2024-01-01T08:00:00.000Z'' None initDatabase =
      Inr s' \<and> map content (memories s') = [''Buy milk''] \<and> map viewCount (memories s') = [0]"
    using c by (auto simp: initDatabase_def)
  from a b c r1 r2 r3 show ?thesis by simp
qed


section \<open>Ordering of query results\<close>

lemma mset_insertDesc: "mset (insertDesc f x ys) = add_mset x (mset ys)"
  by (induction ys) auto

lemma mset_orderByDesc: "mset (orderByDesc f xs) = mset xs"
  by (induction xs) (auto simp: orderByDesc_def mset_insertDesc)


lemma length_orderByDesc: "length (orderByDesc f xs) = length xs"
  using mset_orderByDesc[of f xs] by (metis size_mset)

lemma orderByDesc_Nil_iff: "orderByDesc f xs = [] \<longleftrightarrow> xs = []"
  using length_orderByDesc[of f xs] by (metis length_0_conv)

lemma set_insertDesc: "set (insertDesc f x ys) = insert x (set ys)"
  using mset_insertDesc[of f x ys] by (metis set_mset_mset set_mset_add_mset_insert)

lemma sorted_insertDesc:
  "sorted_wrt (\<lambda>a b. f b \<le> f a) ys \<Longrightarrow> sorted_wrt (\<lambda>a b. f b \<le> f a) (insertDesc f x ys)"
proof (induction ys)
  case Nil
  then show ?case by simp
next
  case (Cons y ys)
  show ?case
  proof (cases "f y \<le> f x")
    case True
    with Cons.prems show ?thesis by (auto intro: order_trans)
  next
    case False
    then have "f x \<le> f y" by simp
    with Cons False show ?thesis by (auto simp: set_insertDesc)
  qed
qed

lemma sorted_orderByDesc: "sorted_wrt (\<lambda>a b. f b \<le> f a) (orderByDesc f xs)"
  by (induction xs) (auto simp: orderByDesc_def sorted_insertDesc)

lemma filter_insertDesc:
  "sorted_wrt (\<lambda>a b. f b \<le> f a) ys \<Longrightarrow>
   filter P (insertDesc f x ys) = (if P x then insertDesc f x (filter P ys) else filter P ys)"
proof (induction ys)
  case Nil
  then show ?case by simp
next
  case (Cons y ys)
  show ?case
  proof (cases "f y \<le> f x")
    case True
    have "\<forall>z\<in>set ys. f z \<le> f x" using Cons.prems True by (auto intro: order_trans)
    then have "insertDesc f x (filter P ys) = x # filter P ys"
      by (cases "filter P ys") (auto simp: filter_eq_Cons_iff)
    with True show ?thesis by simp
  next
    case False
    with Cons show ?thesis by simp
  qed
qed

text \<open>Ordering is stable: it commutes with selecting rows.\<close>
lemma filter_orderByDesc: "filter P (orderByDesc f xs) = orderByDesc f (filter P xs)"
proof (induction xs)
  case Nil
  then show ?case by (simp add: orderByDesc_def)
next
  case (Cons x xs)
  have "filter P (orderByDesc f (x # xs)) = filter P (insertDesc f x (orderByDesc f xs))"
    by (simp add: orderByDesc_def)
  also have "\<dots> = (if P x then insertDesc f x (filter P (orderByDesc f xs))
                    else filter P (orderByDesc f xs))"
    by (rule filter_insertDesc[OF sorted_orderByDesc])
  also have "\<dots> = orderByDesc f (filter P (x # xs))"
    using Cons by (simp add: orderByDesc_def)
  finally show ?case .
qed

lemma orderByDesc_single: "orderByDesc f [x] = [x]"
  by (simp add: orderByDesc_def)

section \<open>Primary keys\<close>

lemma filter_key_absent: "k \<notin> f ` set xs \<Longrightarrow> filter (\<lambda>x. f x = k) xs = []"
  by (induction xs) auto

lemma filter_key_distinct:
  "distinct (map f xs) \<Longrightarrow> length (filter (\<lambda>x. f x = k) xs) \<le> 1"
proof (induction xs)
  case Nil
  then show ?case by simp
next
  case (Cons y ys)
  show ?case
  proof (cases "f y = k")
    case True
    then have "k \<notin> f ` set ys" using Cons.prems by auto
    then show ?thesis using True by (simp add: filter_key_absent)
  next
    case False
    with Cons show ?thesis by simp
  qed
qed

lemma filter_key_present:
  "distinct (map f xs) \<Longrightarrow> k \<in> f ` set xs \<Longrightarrow> \<exists>x. filter (\<lambda>x. f x = k) xs = [x]"
proof (induction xs)
  case Nil
  then show ?case by simp
next
  case (Cons y ys)
  show ?case
  proof (cases "f y = k")
    case True
    then have "k \<notin> f ` set ys" using Cons.prems(1) by auto
    then show ?thesis using True by (simp add: filter_key_absent)
  next
    case False
    with Cons show ?thesis by auto
  qed
qed

lemma activeGoals_after_set:
  "activeGoals (map (\<lambda>g. if goalId g = j then g\<lparr>isActive := True\<rparr> else g)
                 (map (\<lambda>g. g\<lparr>isActive := False\<rparr>) gs)) =
   map (\<lambda>g. g\<lparr>isActive := True\<rparr>) (filter (\<lambda>g. goalId g = j) gs)"
  by (induction gs) (auto simp: activeGoals_def)

lemma activeGoals_all_off: "activeGoals (map (\<lambda>g. g\<lparr>isActive := False\<rparr>) gs) = []"
  by (induction gs) (auto simp: activeGoals_def)

lemma goalIds_after_set:
  "map goalId (map (\<lambda>g. if goalId g = j then g\<lparr>isActive := True\<rparr> else g)
                 (map (\<lambda>g. g\<lparr>isActive := False\<rparr>) gs)) = map goalId gs"
  by (induction gs) auto

lemma goalIds_all_off: "map goalId (map (\<lambda>g. g\<lparr>isActive := False\<rparr>) gs) = map goalId gs"
  by (induction gs) auto

lemma primaryKeys_setActiveFocusGoal:
  "primaryKeys s \<Longrightarrow> primaryKeys (setActiveFocusGoal i s)"
  using goalIds_after_set[of _ "focus_goals s"] goalIds_all_off[of "focus_goals s"]
  by (cases i) (simp_all add: primaryKeys_def setActiveFocusGoal_def Let_def del: map_map)

lemma primaryKeys_deleteFocusGoal:
  "primaryKeys s \<Longrightarrow> primaryKeys (deleteFocusGoal i s)"
  by (simp add: primaryKeys_def deleteFocusGoal_def distinct_map_filter)

lemma primaryKeys_addFocusGoal:
  "primaryKeys s \<Longrightarrow> primaryKeys (snd (addFocusGoal nm nowIso s))"
  using nextRowid_fresh[of "focus_goals_seq s" "map goalId (focus_goals s)"]
  by (simp add: primaryKeys_def addFocusGoal_def Let_def)

lemma primaryKeys_initDatabase: "primaryKeys initDatabase"
  by (simp add: primaryKeys_def initDatabase_def)

lemma primaryKeys_addMemory:
  "primaryKeys s \<Longrightarrow> addMemory memory s = Inr (i, s') \<Longrightarrow> primaryKeys s'"
  using nextRowid_fresh[of "memories_seq s" "map memoryId (memories s)"]
  by (auto simp: primaryKeys_def addMemory_def Let_def insertedRow_def)

lemma primaryKeys_deleteMemory:
  "primaryKeys s \<Longrightarrow> deleteMemory i s = Inr s' \<Longrightarrow> primaryKeys s'"
  by (auto simp: primaryKeys_def deleteMemory_def distinct_map_filter)

lemma memoryIds_update:
  "map memoryId (map (\<lambda>m. if memoryId m = i then applyUpdates u m else m) ms) = map memoryId ms"
  by (induction ms) (auto simp: applyUpdates_def)

lemma primaryKeys_updateMemory:
  "primaryKeys s \<Longrightarrow> updateMemory i u s = Inr s' \<Longrightarrow> primaryKeys s'"
  using memoryIds_update[of i u "memories s"]
  by (auto simp: primaryKeys_def updateMemory_def split: if_splits simp del: map_map)

lemma memoryIds_view:
  "map memoryId (map (\<lambda>m. if memoryId m = i
       then m\<lparr>viewCount := viewCount m + 1, lastViewedAt := Some t\<rparr> else m) ms) = map memoryId ms"
  by (induction ms) auto

lemma primaryKeys_incrementViewCount:
  "primaryKeys s \<Longrightarrow> primaryKeys (incrementViewCount t i s)"
  using memoryIds_view[of i t "memories s"]
  by (simp add: primaryKeys_def incrementViewCount_def del: map_map)

section \<open>Focus goals\<close>

text \<open>
  Claim C2. At most one focus goal is active at any time. In a store whose goal ids are
  unique (the primary key), \<^verbatim>\<open>addFocusGoal\<close> and \<^verbatim>\<open>deleteFocusGoal\<close> keep "at most one
  goal is active", \<^verbatim>\<open>setActiveFocusGoal\<close> establishes it for any argument, all three keep
  the ids unique, and for every goal id \<open>j\<close> present in the store,
  \<^verbatim>\<open>setActiveFocusGoal(j)\<close> followed by \<^verbatim>\<open>getFocusGoals()\<close> yields exactly one active goal,
  the one with id \<open>j\<close>.
\<close>

theorem single_active_goal:
  assumes pk: "primaryKeys s"
  shows "(atMostOneActive s \<longrightarrow> atMostOneActive (snd (addFocusGoal nm nowIso s))) \<and>
         atMostOneActive (setActiveFocusGoal i s) \<and>
         (atMostOneActive s \<longrightarrow> atMostOneActive (deleteFocusGoal k s)) \<and>
         primaryKeys (snd (addFocusGoal nm nowIso s)) \<and>
         primaryKeys (setActiveFocusGoal i s) \<and>
         primaryKeys (deleteFocusGoal k s) \<and>
         (j \<in> goalId ` set (focus_goals s) \<longrightarrow>
            (\<exists>g. activeGoals (getFocusGoals (setActiveFocusGoal (Some j) s)) = [g] \<and>
                 goalId g = j \<and> isActive g))"
proof (intro conjI impI)
  assume "atMostOneActive s"
  then show "atMostOneActive (snd (addFocusGoal nm nowIso s))"
    by (simp add: atMostOneActive_def addFocusGoal_def Let_def activeGoals_def)
next
  have d: "distinct (map goalId (focus_goals s))" using pk by (simp add: primaryKeys_def)
  show "atMostOneActive (setActiveFocusGoal i s)"
  proof (cases i)
    case None
    then show ?thesis
      by (simp add: atMostOneActive_def setActiveFocusGoal_def Let_def activeGoals_all_off)
  next
    case (Some j')
    then show ?thesis
      using filter_key_distinct[OF d, of j'] activeGoals_after_set[of j' "focus_goals s"]
      by (simp add: atMostOneActive_def setActiveFocusGoal_def Let_def del: map_map)
  qed
next
  assume a: "atMostOneActive s"
  have "filter isActive (filter (\<lambda>g. goalId g \<noteq> k) (focus_goals s)) =
        filter (\<lambda>g. goalId g \<noteq> k) (filter isActive (focus_goals s))"
    by (simp add: conj_commute)
  moreover have "length (filter (\<lambda>g. goalId g \<noteq> k) (filter isActive (focus_goals s))) \<le>
        length (filter isActive (focus_goals s))"
    by (rule length_filter_le)
  ultimately show "atMostOneActive (deleteFocusGoal k s)"
    using a by (simp add: atMostOneActive_def deleteFocusGoal_def activeGoals_def)
next
  show "primaryKeys (snd (addFocusGoal nm nowIso s))" by (rule primaryKeys_addFocusGoal[OF pk])
  show "primaryKeys (setActiveFocusGoal i s)" by (rule primaryKeys_setActiveFocusGoal[OF pk])
  show "primaryKeys (deleteFocusGoal k s)" by (rule primaryKeys_deleteFocusGoal[OF pk])
next
  assume j: "j \<in> goalId ` set (focus_goals s)"
  have d: "distinct (map goalId (focus_goals s))" using pk by (simp add: primaryKeys_def)
  from filter_key_present[OF d j] obtain g0 where
    g0: "filter (\<lambda>g. goalId g = j) (focus_goals s) = [g0]" by blast
  then have "g0 \<in> set (filter (\<lambda>g. goalId g = j) (focus_goals s))" by simp
  then have idg: "goalId g0 = j" by simp
  have "activeGoals (getFocusGoals (setActiveFocusGoal (Some j) s)) =
        orderByDesc goalCreatedAt (activeGoals (focus_goals (setActiveFocusGoal (Some j) s)))"
    by (simp add: getFocusGoals_def activeGoals_def filter_orderByDesc)
  also have "\<dots> = [g0\<lparr>isActive := True\<rparr>]"
    using activeGoals_after_set[of j "focus_goals s"]
    by (simp add: setActiveFocusGoal_def Let_def g0 orderByDesc_single del: map_map)
  finally show "\<exists>g. activeGoals (getFocusGoals (setActiveFocusGoal (Some j) s)) = [g] \<and>
                 goalId g = j \<and> isActive g"
    using idg by simp
qed


theorem single_active_goal_witness:
  "primaryKeys twoGoals \<and> atMostOneActive twoGoals \<and>
   2 \<in> goalId ` set (focus_goals twoGoals) \<and>
   atMostOneActive (setActiveFocusGoal (Some 2) twoGoals) \<and>
   atMostOneActive (deleteFocusGoal 1 twoGoals) \<and>
   map goalId (activeGoals (getFocusGoals (setActiveFocusGoal (Some 2) twoGoals))) = [2]"
proof -
  have pk: "primaryKeys twoGoals"
    by (simp add: twoGoals_def primaryKeys_def addFocusGoal_def initDatabase_def nextRowid_def
        Let_def)
  have one: "atMostOneActive twoGoals"
    by (simp add: twoGoals_def atMostOneActive_def activeGoals_def addFocusGoal_def
        initDatabase_def nextRowid_def Let_def)
  have mem: "2 \<in> goalId ` set (focus_goals twoGoals)"
    by (simp add: twoGoals_def addFocusGoal_def initDatabase_def nextRowid_def Let_def)
  from single_active_goal[OF pk, of "''x''" "''t''" "Some 2" 1 2] one mem pk show ?thesis
    by auto
qed

section \<open>Case mapping, substrings and keywords\<close>

lemma str_includes_sublist: "str_includes s k \<longleftrightarrow> sublist k s"
  by (induction s) (auto simp: sublist_Cons_right)

lemma str_includes_empty: "str_includes s []"
  by (simp add: str_includes_sublist)

lemma isSpace_lowerChar: "isSpace (lowerChar c) = isSpace c"
  by (auto simp: isSpace_def lowerChar_def Let_def)

lemma lowerChar_idem: "lowerChar (lowerChar c) = lowerChar c"
  by (auto simp: lowerChar_def Let_def)

lemma toLowerCase_idem: "toLowerCase (toLowerCase s) = toLowerCase s"
  by (simp add: toLowerCase_def lowerChar_idem)

lemma splitWs_not_Nil: "splitWs s \<noteq> []"
  by (subst splitWs.simps) (simp add: Let_def)

lemma splitWs_leading:
  "s = [] \<or> isSpace (hd s) \<Longrightarrow> hd (splitWs s) = []"
  by (subst splitWs.simps) (cases s; auto simp: Let_def)

lemma splitWs_no_space: "\<forall>c\<in>set s. \<not> isSpace c \<Longrightarrow> splitWs s = [s]"
proof -
  assume a: "\<forall>c\<in>set s. \<not> isSpace c"
  then have "takeWhile (\<lambda>c. \<not> isSpace c) s = s" "dropWhile (\<lambda>c. \<not> isSpace c) s = []"
    by (simp_all add: takeWhile_eq_all_conv)
  then show ?thesis by (subst splitWs.simps) (simp add: Let_def)
qed

lemma splitWs_unfold_last:
  assumes "dropWhile (\<lambda>c. \<not> isSpace c) s = []"
  shows "splitWs s = [takeWhile (\<lambda>c. \<not> isSpace c) s]"
proof -
  have "splitWs s =
     (let piece = takeWhile (\<lambda>c. \<not> isSpace c) s;
          rest = dropWhile (\<lambda>c. \<not> isSpace c) s
      in if rest = [] then [piece] else piece # splitWs (dropWhile isSpace rest))"
    by (rule splitWs.simps)
  also have "\<dots> = [takeWhile (\<lambda>c. \<not> isSpace c) s]"
    unfolding Let_def using assms by (simp only: refl if_True)
  finally show ?thesis .
qed

lemma splitWs_unfold_more:
  assumes "dropWhile (\<lambda>c. \<not> isSpace c) s \<noteq> []"
  shows "splitWs s = takeWhile (\<lambda>c. \<not> isSpace c) s #
               splitWs (dropWhile isSpace (dropWhile (\<lambda>c. \<not> isSpace c) s))"
proof -
  have "splitWs s =
     (let piece = takeWhile (\<lambda>c. \<not> isSpace c) s;
          rest = dropWhile (\<lambda>c. \<not> isSpace c) s
      in if rest = [] then [piece] else piece # splitWs (dropWhile isSpace rest))"
    by (rule splitWs.simps)
  also have "\<dots> = takeWhile (\<lambda>c. \<not> isSpace c) s #
               splitWs (dropWhile isSpace (dropWhile (\<lambda>c. \<not> isSpace c) s))"
    unfolding Let_def using assms by (simp only: if_False)
  finally show ?thesis .
qed

lemma splitWs_pieces_no_space: "k \<in> set (splitWs s) \<Longrightarrow> c \<in> set k \<Longrightarrow> \<not> isSpace c"
proof (induction s arbitrary: k rule: splitWs.induct)
  case (1 s)
  let ?piece = "takeWhile (\<lambda>c. \<not> isSpace c) s"
  let ?rest = "dropWhile (\<lambda>c. \<not> isSpace c) s"
  have piece: "c \<in> set ?piece \<Longrightarrow> \<not> isSpace c"
    using set_takeWhileD[of c "\<lambda>c. \<not> isSpace c" s] by blast
  show ?case
  proof (cases "?rest = []")
    case True
    from splitWs_unfold_last[OF True] "1.prems" have "c \<in> set ?piece" by simp
    then show ?thesis by (rule piece)
  next
    case False
    note eq = splitWs_unfold_more[OF False]
    show ?thesis
    proof (cases "k = ?piece")
      case True
      with "1.prems" have "c \<in> set ?piece" by simp
      then show ?thesis by (rule piece)
    next
      case nk: False
      from eq "1.prems"(1) nk have "k \<in> set (splitWs (dropWhile isSpace ?rest))" by simp
      from "1.IH"[OF refl refl False this "1.prems"(2)] show ?thesis .
    qed
  qed
qed

lemma splitWs_pieces_sublist: "k \<in> set (splitWs s) \<Longrightarrow> sublist k s"
proof (induction s arbitrary: k rule: splitWs.induct)
  case (1 s)
  let ?piece = "takeWhile (\<lambda>c. \<not> isSpace c) s"
  let ?rest = "dropWhile (\<lambda>c. \<not> isSpace c) s"
  have s: "s = ?piece @ ?rest" by simp
  have "prefix ?piece s" by (rule prefixI[OF s])
  then have pre: "sublist ?piece s" by (rule prefix_imp_sublist)
  show ?case
  proof (cases "?rest = []")
    case True
    from splitWs_unfold_last[OF True] "1.prems" have "k = ?piece" by simp
    with pre show ?thesis by simp
  next
    case False
    note eq = splitWs_unfold_more[OF False]
    show ?thesis
    proof (cases "k = ?piece")
      case True
      with pre show ?thesis by simp
    next
      case nk: False
      from eq "1.prems"(1) nk have "k \<in> set (splitWs (dropWhile isSpace ?rest))" by simp
      from "1.IH"[OF refl refl False this]
      have "sublist k (dropWhile isSpace ?rest)" .
      then obtain ps ss where "dropWhile isSpace ?rest = ps @ k @ ss"
        by (auto simp: sublist_def)
      moreover have "s = ?piece @ takeWhile isSpace ?rest @ dropWhile isSpace ?rest" by simp
      ultimately have "s = (?piece @ takeWhile isSpace ?rest @ ps) @ k @ ss" by simp
      then show ?thesis unfolding sublist_def by blast
    qed
  qed
qed


lemma matchesKeywords_iff:
  "matchesKeywords ks m \<longleftrightarrow>
     (\<exists>k\<in>set ks. sublist k (toLowerCase (content m)) \<or>
                  sublist k (toLowerCase (case focusTags m of None \<Rightarrow> [] | Some t \<Rightarrow> t)))"
  by (cases "focusTags m")
     (auto simp: matchesKeywords_def Let_def list_ex_iff str_includes_sublist toLowerCase_def)

lemma blank_has_empty_keyword:
  assumes "\<forall>c\<in>set g. isSpace c"
  shows "[] \<in> set (splitWs (toLowerCase g))"
proof -
  have "toLowerCase g = [] \<or> isSpace (hd (toLowerCase g))"
    using assms by (cases g) (auto simp: toLowerCase_def isSpace_lowerChar)
  then have "hd (splitWs (toLowerCase g)) = []" by (rule splitWs_leading)
  then show ?thesis using splitWs_not_Nil[of "toLowerCase g"] hd_in_set by metis
qed

section \<open>Focus filtering\<close>

text \<open>
  Claim C10. If the active goal name is empty or consists only of whitespace, focus
  filtering matches every record: splitting such a name yields the empty keyword, the
  empty string is a substring of every text, and so the filter returns all memories.
\<close>

theorem blank_goal_matches_all:
  assumes "\<forall>c\<in>set goalName. isSpace c"
  shows "[] \<in> set (splitWs (toLowerCase goalName)) \<and>
         (\<forall>x. str_includes x []) \<and>
         (\<forall>m. matchesKeywords (splitWs (toLowerCase goalName)) m) \<and>
         filterMemories goalName s = getAllMemories s"
proof -
  have e: "[] \<in> set (splitWs (toLowerCase goalName))"
    by (rule blank_has_empty_keyword[OF assms])
  have all: "matchesKeywords (splitWs (toLowerCase goalName)) m" for m
    unfolding matchesKeywords_iff using e by (intro bexI[of _ "[]"]) simp_all
  then have "filterMemories goalName s = getAllMemories s"
    by (simp add: filterMemories_def Let_def)
  with e all show ?thesis by (simp add: str_includes_empty)
qed

theorem blank_goal_matches_all_witness:
  "list_all isSpace ''  '' \<and> filterMemories ''  '' twoNotes = getAllMemories twoNotes \<and>
   filterMemories [] twoNotes = getAllMemories twoNotes \<and>
   splitWs (toLowerCase ''  '') = [[], []] \<and> splitWs (toLowerCase []) = [[]]"
proof -
  have a: "\<forall>c\<in>set ''  ''. isSpace c" by code_simp
  have b: "\<forall>c\<in>set []. isSpace c" by simp
  have c: "splitWs (toLowerCase ''  '') = [[], []]" by code_simp
  have d: "splitWs (toLowerCase []) = [[]]" by code_simp
  from blank_goal_matches_all[OF a, of twoNotes] blank_goal_matches_all[OF b, of twoNotes] a c d
  show ?thesis by (simp add: list_all_iff)
qed

text \<open>
  Claim C5. Focus filtering keeps a record exactly when at least one of the keywords,
  obtained by splitting the lowercased goal name on whitespace, occurs as a substring of
  the lowercased content or of the lowercased tag text. The match ignores case: two goal
  names with the same lowercase form select the same records, and two records whose
  contents and tags have the same lowercase forms are matched alike. The goal
  "work travel" has the keywords "work" and "travel"; of the two sample notes it selects
  the one tagged "travel-plans" and not the one that only says "personal".
\<close>

theorem focus_filter_keywords:
  "filterMemories goalName s =
     filter (\<lambda>m. \<exists>k\<in>set (splitWs (toLowerCase goalName)).
                   sublist k (toLowerCase (content m)) \<or>
                   sublist k (toLowerCase (case focusTags m of None \<Rightarrow> [] | Some t \<Rightarrow> t)))
       (getAllMemories s) \<and>
   (toLowerCase goalName = toLowerCase goalName' \<longrightarrow>
      filterMemories goalName s = filterMemories goalName' s) \<and>
   (toLowerCase (content m) = toLowerCase (content m') \<and>
    map_option toLowerCase (focusTags m) = map_option toLowerCase (focusTags m') \<longrightarrow>
      matchesKeywords ks m = matchesKeywords ks m') \<and>
   splitWs (toLowerCase ''work travel'') = [''work'', ''travel''] \<and>
   getAllMemories twoNotes = [personalNote, travelNote] \<and>
   focusTags travelNote = Some ''travel-plans'' \<and>
   content personalNote = ''personal'' \<and> focusTags personalNote = Some ''personal'' \<and>
   filterMemories ''work travel'' twoNotes = [travelNote] \<and>
   filterMemories ''Work TRAVEL'' twoNotes = [travelNote]"
proof (intro conjI impI)
  show "filterMemories goalName s =
     filter (\<lambda>m. \<exists>k\<in>set (splitWs (toLowerCase goalName)).
                   sublist k (toLowerCase (content m)) \<or>
                   sublist k (toLowerCase (case focusTags m of None \<Rightarrow> [] | Some t \<Rightarrow> t)))
       (getAllMemories s)"
    unfolding filterMemories_def Let_def
    by (rule filter_cong[OF refl]) (rule matchesKeywords_iff)
  show "filterMemories goalName s = filterMemories goalName' s"
    if "toLowerCase goalName = toLowerCase goalName'"
    using that by (simp add: filterMemories_def)
  show "matchesKeywords ks m = matchesKeywords ks m'"
    if a: "toLowerCase (content m) = toLowerCase (content m') \<and>
       map_option toLowerCase (focusTags m) = map_option toLowerCase (focusTags m')"
  proof -
    have "(case focusTags m of None \<Rightarrow> [] | Some t \<Rightarrow> toLowerCase t) =
          (case focusTags m' of None \<Rightarrow> [] | Some t \<Rightarrow> toLowerCase t)"
      using a by (cases "focusTags m"; cases "focusTags m'") simp_all
    then show ?thesis using a by (simp add: matchesKeywords_def)
  qed
  show "splitWs (toLowerCase ''work travel'') = [''work'', ''travel'']" by code_simp
  show "getAllMemories twoNotes = [personalNote, travelNote]" by code_simp
  show "focusTags travelNote = Some ''travel-plans''" by code_simp
  show "content personalNote = ''personal''" by code_simp
  show "focusTags personalNote = Some ''personal''" by code_simp
  show "filterMemories ''work travel'' twoNotes = [travelNote]" by code_simp
  show "filterMemories ''Work TRAVEL'' twoNotes = [travelNote]" by code_simp
qed

text \<open>
  The same at concrete goal names: "WORK Travel" and "work travel" select the same notes.
  Beyond ASCII, the goal in capitals with the accented letter selects the note written
  in small letters, and a no-break space separates keywords as a space does.
\<close>

theorem focus_filter_keywords_witness:
  "toLowerCase ''WORK Travel'' = toLowerCase ''work travel'' \<and>
   filterMemories ''WORK Travel'' twoNotes = filterMemories ''work travel'' twoNotes \<and>
   toLowerCase cafeCapitals = cafeSmall \<and>
   map content (filterMemories cafeCapitals cafeStore) = [cafeSmall] \<and>
   splitWs (toLowerCase (''work'' @ [nbsp] @ ''travel'')) = [''work'', ''travel''] \<and>
   filterMemories (''work'' @ [nbsp] @ ''travel'') twoNotes = [travelNote]"
proof -
  have a: "toLowerCase ''WORK Travel'' = toLowerCase ''work travel''" by code_simp
  have "toLowerCase ''WORK Travel'' = toLowerCase ''work travel'' \<longrightarrow>
      filterMemories ''WORK Travel'' twoNotes = filterMemories ''work travel'' twoNotes"
    using focus_filter_keywords[where goalName = "''WORK Travel''"
        and goalName' = "''work travel''" and s = twoNotes and m = travelNote
        and m' = travelNote and ks = "[]"]
    by (elim conjE)
  then have b: "filterMemories ''WORK Travel'' twoNotes = filterMemories ''work travel'' twoNotes"
    using a by (rule mp)
  have c: "toLowerCase cafeCapitals = cafeSmall" by code_simp
  have d: "map content (filterMemories cafeCapitals cafeStore) = [cafeSmall]" by code_simp
  have e: "splitWs (toLowerCase (''work'' @ [nbsp] @ ''travel'')) = [''work'', ''travel'']"
    by code_simp
  have f: "filterMemories (''work'' @ [nbsp] @ ''travel'') twoNotes = [travelNote]" by code_simp
  from a b c d e f show ?thesis by simp
qed


section \<open>The calendar\<close>

text \<open>A day of a 400-year era, split into century, 4-year cycle, year and day of year.\<close>

lemma era_split:
  fixes doe :: int
  assumes "0 \<le> doe" "doe \<le> 146096"
  shows "\<exists>c q p u. doe = 36524 * c + 1461 * q + 365 * p + u \<and>
           0 \<le> c \<and> c \<le> 3 \<and> 0 \<le> q \<and> q \<le> 24 \<and> 0 \<le> p \<and> p \<le> 3 \<and> 0 \<le> u \<and>
           (u \<le> 364 \<or> (u = 365 \<and> p = 3 \<and> (q < 24 \<or> c = 3)))"
proof -
  define c where "c = (if 109572 \<le> doe then 3 else doe div 36524)"
  define r where "r = doe - 36524 * c"
  define q where "q = (if 35064 \<le> r then 24 else r div 1461)"
  define s where "s = r - 1461 * q"
  define p where "p = (if 1095 \<le> s then 3 else s div 365)"
  define u where "u = s - 365 * p"
  have c: "0 \<le> c" "c \<le> 3" using assms by (auto simp: c_def)
  have r: "0 \<le> r" "r \<le> 36524" "c < 3 \<Longrightarrow> r \<le> 36523"
    using assms by (auto simp: r_def c_def)
  have q: "0 \<le> q" "q \<le> 24" using r by (auto simp: q_def)
  have s: "0 \<le> s" "s \<le> 1460" "q = 24 \<Longrightarrow> c < 3 \<Longrightarrow> s \<le> 1459"
    using r by (auto simp: s_def q_def)
  have p: "0 \<le> p" "p \<le> 3" using s by (auto simp: p_def)
  have u: "0 \<le> u" "u \<le> 365" "p < 3 \<Longrightarrow> u \<le> 364" "s \<le> 1459 \<Longrightarrow> u \<le> 364"
    using s by (auto simp: u_def p_def)
  have eq: "doe = 36524 * c + 1461 * q + 365 * p + u" by (simp add: u_def s_def r_def)
  have last: "u \<le> 364 \<or> (u = 365 \<and> p = 3 \<and> (q < 24 \<or> c = 3))"
  proof (cases "u \<le> 364")
    case True
    then show ?thesis by simp
  next
    case False
    then have u365: "u = 365" using u(2) by simp
    have p3: "p = 3" using False u(3) p(2) by fastforce
    have "\<not> s \<le> 1459" using False u(4) by blast
    then have "\<not> (q = 24 \<and> c < 3)" using s(3) by blast
    then have "q < 24 \<or> c = 3" using q(2) c(2) by linarith
    with u365 p3 show ?thesis by simp
  qed
  from eq c q p u(1) last show ?thesis by blast
qed


lemma div_unique_int:
  fixes a :: int
  assumes "a = n * k + r" "0 \<le> r" "r < n"
  shows "a div n = k"
proof -
  have "a div n = (r + k * n) div n" using assms(1) by (simp add: mult.commute add.commute)
  also have "\<dots> = r div n + k" using assms(2,3) by simp
  also have "\<dots> = k" using assms(2,3) by simp
  finally show ?thesis .
qed

lemma year_of_era:
  fixes doe c q p u :: int
  assumes eq: "doe = 36524 * c + 1461 * q + 365 * p + u"
    and c: "0 \<le> c" "c \<le> 3" and q: "0 \<le> q" "q \<le> 24" and p: "0 \<le> p" "p \<le> 3"
    and u: "0 \<le> u"
    and last: "u \<le> 364 \<or> (u = 365 \<and> p = 3 \<and> (q < 24 \<or> c = 3))"
  shows "(doe - doe div 1460 + doe div 36524 - doe div 146096) div 365 = 100 * c + 4 * q + p"
proof -
  define R where "R = 24 * c + q + 365 * p + u"
  define e :: int where "e = (if 1460 \<le> R then 1 else 0)"
  have u365: "u \<le> 365" using last by auto
  have R: "0 \<le> R" "R \<le> 1556" using c q p u u365 by (auto simp: R_def)
  have d1460: "doe div 1460 = 25 * c + q + e"
  proof (rule div_unique_int[where r = "R - 1460 * e"])
    show "doe = 1460 * (25 * c + q + e) + (R - 1460 * e)" by (simp add: eq R_def)
    show "0 \<le> R - 1460 * e" "R - 1460 * e < 1460" using R by (auto simp: e_def)
  qed
  have cent: "doe div 36524 - doe div 146096 = c"
  proof (cases "doe = 146096")
    case True
    then have "c = 3" using eq c q p u u365 by linarith
    with True show ?thesis by simp
  next
    case False
    have le: "doe \<le> 146096" using eq c q p u last by auto
    with False have lt: "doe < 146096" by simp
    have "0 \<le> doe" using eq c q p u by simp
    then have z: "doe div 146096 = 0" using lt by simp
    have rr: "1461 * q + 365 * p + u \<le> 36523"
    proof (cases "c = 3")
      case True
      with lt eq show ?thesis by simp
    next
      case False
      then show ?thesis using q p u last by auto
    qed
    have "doe div 36524 = c"
    proof (rule div_unique_int[where r = "1461 * q + 365 * p + u"])
      show "doe = 36524 * c + (1461 * q + 365 * p + u)" by (simp add: eq)
      show "0 \<le> 1461 * q + 365 * p + u" using q p u by simp
      show "1461 * q + 365 * p + u < 36524" using rr by simp
    qed
    with z show ?thesis by simp
  qed
  have ue: "0 \<le> u - e" "u - e < 365"
  proof -
    show "0 \<le> u - e" using c q p u by (auto simp: e_def R_def)
    show "u - e < 365"
    proof (cases "u = 365")
      case True
      then have "p = 3" using last by simp
      then have "1460 \<le> R" using True c q by (simp add: R_def)
      then show ?thesis using True by (simp add: e_def)
    next
      case False
      then have "u \<le> 364" using last by auto
      then show ?thesis by (auto simp: e_def)
    qed
  qed
  have "doe - doe div 1460 + doe div 36524 - doe div 146096 =
        doe - doe div 1460 + (doe div 36524 - doe div 146096)" by simp
  also have "\<dots> = 365 * (100 * c + 4 * q + p) + (u - e)"
    unfolding d1460 cent by (simp add: eq)
  finally show ?thesis using div_unique_int[OF _ ue] by blast
qed


lemma month_of_day:
  fixes u :: int
  assumes "lo \<le> u" "u \<le> hi" "153 * k \<le> 5 * lo + 2" "5 * hi + 2 < 153 * k + 153"
  shows "(5 * u + 2) div 153 = k"
proof (rule div_unique_int[where r = "5 * u + 2 - 153 * k"])
  show "5 * u + 2 = 153 * k + (5 * u + 2 - 153 * k)" by simp
  show "0 \<le> 5 * u + 2 - 153 * k" using assms by linarith
  show "5 * u + 2 - 153 * k < 153" using assms by linarith
qed

lemma month_day:
  fixes u :: int
  assumes "0 \<le> u" "u \<le> 365"
  shows "0 \<le> (5 * u + 2) div 153 \<and> (5 * u + 2) div 153 \<le> 11 \<and>
         1 \<le> u - (153 * ((5 * u + 2) div 153) + 2) div 5 + 1 \<and>
         u - (153 * ((5 * u + 2) div 153) + 2) div 5 + 1 \<le> monthLength ((5 * u + 2) div 153) \<and>
         ((5 * u + 2) div 153 = 11 \<and> u \<le> 364 \<longrightarrow>
            u - (153 * ((5 * u + 2) div 153) + 2) div 5 + 1 \<le> 28)"
proof -
  have r: "lo \<le> u \<Longrightarrow> u \<le> hi \<Longrightarrow> 153 * k \<le> 5 * lo + 2 \<Longrightarrow> 5 * hi + 2 < 153 * k + 153 \<Longrightarrow>
           (5 * u + 2) div 153 = k" for lo hi k
    by (rule month_of_day)
  have c0: ?thesis if "0 \<le> u" "u \<le> 30"
  proof -
    have "(5 * u + 2) div 153 = 0" by (rule r[OF that]) simp_all
    with that show ?thesis by (simp add: monthLength_def)
  qed
  have c1: ?thesis if "31 \<le> u" "u \<le> 60"
  proof -
    have "(5 * u + 2) div 153 = 1" by (rule r[OF that]) simp_all
    with that show ?thesis by (simp add: monthLength_def)
  qed
  have c2: ?thesis if "61 \<le> u" "u \<le> 91"
  proof -
    have "(5 * u + 2) div 153 = 2" by (rule r[OF that]) simp_all
    with that show ?thesis by (simp add: monthLength_def)
  qed
  have c3: ?thesis if "92 \<le> u" "u \<le> 121"
  proof -
    have "(5 * u + 2) div 153 = 3" by (rule r[OF that]) simp_all
    with that show ?thesis by (simp add: monthLength_def)
  qed
  have c4: ?thesis if "122 \<le> u" "u \<le> 152"
  proof -
    have "(5 * u + 2) div 153 = 4" by (rule r[OF that]) simp_all
    with that show ?thesis by (simp add: monthLength_def)
  qed
  have c5: ?thesis if "153 \<le> u" "u \<le> 183"
  proof -
    have "(5 * u + 2) div 153 = 5" by (rule r[OF that]) simp_all
    with that show ?thesis by (simp add: monthLength_def)
  qed
  have c6: ?thesis if "184 \<le> u" "u \<le> 213"
  proof -
    have "(5 * u + 2) div 153 = 6" by (rule r[OF that]) simp_all
    with that show ?thesis by (simp add: monthLength_def)
  qed
  have c7: ?thesis if "214 \<le> u" "u \<le> 244"
  proof -
    have "(5 * u + 2) div 153 = 7" by (rule r[OF that]) simp_all
    with that show ?thesis by (simp add: monthLength_def)
  qed
  have c8: ?thesis if "245 \<le> u" "u \<le> 274"
  proof -
    have "(5 * u + 2) div 153 = 8" by (rule r[OF that]) simp_all
    with that show ?thesis by (simp add: monthLength_def)
  qed
  have c9: ?thesis if "275 \<le> u" "u \<le> 305"
  proof -
    have "(5 * u + 2) div 153 = 9" by (rule r[OF that]) simp_all
    with that show ?thesis by (simp add: monthLength_def)
  qed
  have c10: ?thesis if "306 \<le> u" "u \<le> 336"
  proof -
    have "(5 * u + 2) div 153 = 10" by (rule r[OF that]) simp_all
    with that show ?thesis by (simp add: monthLength_def)
  qed
  have c11: ?thesis if "337 \<le> u" "u \<le> 365"
  proof -
    have "(5 * u + 2) div 153 = 11" by (rule r[OF that]) simp_all
    with that show ?thesis by (simp add: monthLength_def)
  qed
  show ?thesis
  proof (cases "u \<le> 30")
    case True
    show ?thesis by (rule c0[OF assms(1) True])
  next
    case lower: False
    show ?thesis
    proof (cases "u \<le> 60")
      case True
      have "31 \<le> u" using lower by simp
      then show ?thesis using True by (rule c1)
    next
      case lower: False
      show ?thesis
      proof (cases "u \<le> 91")
        case True
        have "61 \<le> u" using lower by simp
        then show ?thesis using True by (rule c2)
      next
        case lower: False
        show ?thesis
        proof (cases "u \<le> 121")
          case True
          have "92 \<le> u" using lower by simp
          then show ?thesis using True by (rule c3)
        next
          case lower: False
          show ?thesis
          proof (cases "u \<le> 152")
            case True
            have "122 \<le> u" using lower by simp
            then show ?thesis using True by (rule c4)
          next
            case lower: False
            show ?thesis
            proof (cases "u \<le> 183")
              case True
              have "153 \<le> u" using lower by simp
              then show ?thesis using True by (rule c5)
            next
              case lower: False
              show ?thesis
              proof (cases "u \<le> 213")
                case True
                have "184 \<le> u" using lower by simp
                then show ?thesis using True by (rule c6)
              next
                case lower: False
                show ?thesis
                proof (cases "u \<le> 244")
                  case True
                  have "214 \<le> u" using lower by simp
                  then show ?thesis using True by (rule c7)
                next
                  case lower: False
                  show ?thesis
                  proof (cases "u \<le> 274")
                    case True
                    have "245 \<le> u" using lower by simp
                    then show ?thesis using True by (rule c8)
                  next
                    case lower: False
                    show ?thesis
                    proof (cases "u \<le> 305")
                      case True
                      have "275 \<le> u" using lower by simp
                      then show ?thesis using True by (rule c9)
                    next
                      case lower: False
                      show ?thesis
                      proof (cases "u \<le> 336")
                        case True
                        have "306 \<le> u" using lower by simp
                        then show ?thesis using True by (rule c10)
                      next
                        case lower: False
                        show ?thesis
                        proof (rule c11)
                          show "337 \<le> u" using lower by simp
                          show "u \<le> 365" using assms(2) .
                        qed
                      qed
                    qed
                  qed
                qed
              qed
            qed
          qed
        qed
      qed
    qed
  qed
qed


lemma civil_unfold:
  fixes z0 era doe c q p u :: int
  assumes era: "era = (z0 + 719468) div 146097" and doe: "doe = (z0 + 719468) mod 146097"
    and eq: "doe = 36524 * c + 1461 * q + 365 * p + u"
    and c: "0 \<le> c" "c \<le> 3" and q: "0 \<le> q" "q \<le> 24" and p: "0 \<le> p" "p \<le> 3"
    and u: "0 \<le> u"
    and last: "u \<le> 364 \<or> (u = 365 \<and> p = 3 \<and> (q < 24 \<or> c = 3))"
  shows "civilFromDays z0 =
     (let mp = (5 * u + 2) div 153;
          m = (if mp < 10 then mp + 3 else mp - 9);
          y = 100 * c + 4 * q + p + era * 400
      in (if m \<le> 2 then y + 1 else y, m, u - (153 * mp + 2) div 5 + 1))"
proof -
  let ?yoe = "100 * c + 4 * q + p"
  have yoe: "(doe - doe div 1460 + doe div 36524 - doe div 146096) div 365 = ?yoe"
    by (rule year_of_era[OF eq c q p u last])
  have d4: "?yoe div 4 = 25 * c + q"
    by (rule div_unique_int[where r = p]) (use p in simp_all)
  have d100: "?yoe div 100 = c"
    by (rule div_unique_int[where r = "4 * q + p"]) (use p q in simp_all)
  have doy: "doe - (365 * ?yoe + ?yoe div 4 - ?yoe div 100) = u"
    unfolding d4 d100 by (simp add: eq)
  show ?thesis
    unfolding civilFromDays_def Let_def era[symmetric] doe[symmetric] yoe doy by simp
qed

lemma civil_correct:
  assumes civ: "civilFromDays z0 = (y, m, d)"
  shows "1 \<le> m \<and> m \<le> 12 \<and> 1 \<le> d \<and> d \<le> daysInMonth y m \<and> daysFromCivil y m d = z0 \<and>
         (- 719528 \<le> z0 \<and> z0 \<le> 2932896 \<longrightarrow> 0 \<le> y \<and> y \<le> 9999)"
proof -
  define era where "era = (z0 + 719468) div 146097"
  define doe where "doe = (z0 + 719468) mod 146097"
  have doe_range: "0 \<le> doe" "doe \<le> 146096" by (simp_all add: doe_def)
  from era_split[OF doe_range] obtain c q p u where
    eq: "doe = 36524 * c + 1461 * q + 365 * p + u"
    and c: "0 \<le> c" "c \<le> 3" and q: "0 \<le> q" "q \<le> 24" and p: "0 \<le> p" "p \<le> 3"
    and u: "0 \<le> u"
    and last: "u \<le> 364 \<or> (u = 365 \<and> p = 3 \<and> (q < 24 \<or> c = 3))"
    by blast
  define yoe where "yoe = 100 * c + 4 * q + p"
  define mp where "mp = (5 * u + 2) div 153"
  have u365: "u \<le> 365" using last by auto
  note md = month_day[OF u u365, folded mp_def]
  have mp: "0 \<le> mp" "mp \<le> 11" using md by simp_all
  have unf: "civilFromDays z0 =
      (if (if mp < 10 then mp + 3 else mp - 9) \<le> 2 then yoe + era * 400 + 1 else yoe + era * 400,
       if mp < 10 then mp + 3 else mp - 9, u - (153 * mp + 2) div 5 + 1)"
    using civil_unfold[OF era_def doe_def eq c q p u last]
    by (simp add: Let_def mp_def yoe_def)
  have m: "m = (if mp < 10 then mp + 3 else mp - 9)"
    and d: "d = u - (153 * mp + 2) div 5 + 1"
    using civ unf by simp_all
  have y: "y = (if m \<le> 2 then yoe + era * 400 + 1 else yoe + era * 400)"
    using civ unf unfolding m by simp
  have m_range: "1 \<le> m" "m \<le> 12" using mp by (auto simp: m)
  have d1: "1 \<le> d" using md by (simp add: d)
  have yoe_range: "0 \<le> yoe" "yoe \<le> 399" using c q p by (auto simp: yoe_def)
  have dlen: "d \<le> daysInMonth y m"
  proof (cases "mp = 11")
    case False
    then have "m \<noteq> 2" using mp by (auto simp: m)
    moreover have "daysInMonth y m = monthLength mp" if "m \<noteq> 2"
      using mp False that by (auto simp: m daysInMonth_def monthLength_def)
    ultimately show ?thesis using md by (simp add: d)
  next
    case True
    then have m2: "m = 2" by (simp add: m)
    show ?thesis
    proof (cases "u \<le> 364")
      case u364: True
      then have "d \<le> 28" using md True by (simp add: d)
      then show ?thesis by (simp add: m2 daysInMonth_def)
    next
      case False
      then have p3: "p = 3" and qc: "q < 24 \<or> c = 3" using last by auto
      have yy: "y = 4 * (25 * c + q + 1 + era * 100)" by (simp add: y m2 yoe_def p3)
      have "y mod 4 = 0" unfolding yy by simp
      moreover have "y mod 100 \<noteq> 0 \<or> y mod 400 = 0"
      proof (cases "q < 24")
        case True
        have "y = (4 * q + 4) + 100 * (c + era * 4)" by (simp add: yy)
        then have "y mod 100 = ((4 * q + 4) + 100 * (c + era * 4)) mod 100" by simp
        also have "\<dots> = (4 * q + 4) mod 100" by (rule mod_mult_self2)
        also have "\<dots> = 4 * q + 4" using q True by simp
        finally show ?thesis using q by simp
      next
        case False
        then have "q = 24" "c = 3" using q qc by simp_all
        then have "y = 400 * (1 + era)" by (simp add: yy)
        then show ?thesis by simp
      qed
      ultimately have "isLeapYear y" by (simp add: isLeapYear_def)
      moreover have "d \<le> 29" using md True by (simp add: d monthLength_def)
      ultimately show ?thesis by (simp add: m2 daysInMonth_def)
    qed
  qed
  have y': "(if m \<le> 2 then y - 1 else y) = yoe + era * 400" by (simp add: y)
  have e': "(yoe + era * 400) div 400 = era"
    by (rule div_unique_int[where r = yoe]) (use yoe_range in simp_all)
  have r': "(yoe + era * 400) mod 400 = yoe" using yoe_range by simp
  have mp': "(if m > 2 then m - 3 else m + 9) = mp" using mp by (auto simp: m)
  have d4: "yoe div 4 = 25 * c + q"
    unfolding yoe_def by (rule div_unique_int[where r = p]) (use p in simp_all)
  have d100: "yoe div 100 = c"
    unfolding yoe_def by (rule div_unique_int[where r = "4 * q + p"]) (use p q in simp_all)
  have doe': "yoe * 365 + yoe div 4 - yoe div 100 + ((153 * mp + 2) div 5 + d - 1) = doe"
    unfolding d4 d100 by (simp add: d eq yoe_def)
  have "daysFromCivil y m d = era * 146097 + doe - 719468"
    unfolding daysFromCivil_def Let_def y' e' r' mp' doe' by simp
  also have "\<dots> = z0"
    using div_mult_mod_eq[of "z0 + 719468" 146097] by (simp add: era_def doe_def)
  finally have inverse: "daysFromCivil y m d = z0" .
  have years: "0 \<le> y \<and> y \<le> 9999" if rng: "- 719528 \<le> z0 \<and> z0 \<le> 2932896"
  proof -
    have mpk: "153 * mp \<le> 5 * u + 2" "5 * u + 2 < 153 * mp + 153"
      using div_mult_mod_eq[of "5 * u + 2" 153] pos_mod_bound[of 153 "5 * u + 2"]
        pos_mod_sign[of 153 "5 * u + 2"]
      unfolding mp_def by linarith+
    have full: "c = 3 \<and> q = 24 \<and> p = 3" if "yoe = 399"
      using that c q p unfolding yoe_def by linarith
    show ?thesis
    proof (cases "z0 + 719468 < 0")
      case True
      have e: "era = - 1"
        unfolding era_def
        by (rule div_unique_int[where r = "z0 + 719468 + 146097"]) (use True rng in simp_all)
      have "doe = z0 + 719468 - era * 146097"
        unfolding era_def doe_def by (simp add: minus_div_mult_eq_mod)
      then have big: "146037 \<le> doe" using e rng by simp
      have c3: "c = 3" using big eq c q p u365 by linarith
      have q24: "q = 24" using big eq c3 q p u365 by linarith
      have p3: "p = 3" using big eq c3 q24 p u365 by linarith
      have "306 \<le> u" using big eq c3 q24 p3 by linarith
      then have "10 \<le> mp" using mpk by linarith
      then have "m \<le> 2" using mp by (simp add: m)
      then show ?thesis by (simp add: y e yoe_def c3 q24 p3)
    next
      case False
      then have z: "0 \<le> z0 + 719468" by simp
      then have e0: "0 \<le> era" by (simp add: era_def pos_imp_zdiv_nonneg_iff)
      have dd: "z0 + 719468 = era * 146097 + doe"
        using div_mult_mod_eq[of "z0 + 719468" 146097] by (simp add: era_def doe_def)
      have e24: "era \<le> 24" using dd doe_range rng by linarith
      have y0: "0 \<le> y" using e0 yoe_range by (simp add: y)
      have "y \<le> 9999"
      proof (cases "era = 24 \<and> yoe = 399")
        case True
        then have "c = 3 \<and> q = 24 \<and> p = 3" using full by simp
        moreover have "doe \<le> 146036" using dd True rng by linarith
        ultimately have "u \<le> 305" using eq by linarith
        then have "mp \<le> 9" using mpk by linarith
        then have "\<not> m \<le> 2" using mp by (simp add: m)
        then show ?thesis using True by (simp add: y)
      next
        case False
        then have "yoe + era * 400 \<le> 9998" using e24 yoe_range by linarith
        then show ?thesis by (simp add: y)
      qed
      with y0 show ?thesis by simp
    qed
  qed
  show ?thesis using m_range d1 dlen inverse years by simp
qed


section \<open>Date texts\<close>

lemma digitChar_not_T: "0 \<le> k \<Longrightarrow> k \<le> 9 \<Longrightarrow> digitChar k \<noteq> CHR ''T''"
proof
  assume k: "0 \<le> k" "k \<le> 9" and e: "digitChar k = CHR ''T''"
  have "48 + nat k < 256" using k by linarith
  then have "(of_char (char_of (48 + nat k) :: char) :: nat) = 48 + nat k" by simp
  moreover have "(of_char (digitChar k) :: nat) = 84" unfolding e by simp
  ultimately have "48 + nat k = 84" by (simp add: digitChar_def)
  with k show False by linarith
qed

lemma digit_mod_not_T: "digitChar (x mod 10) \<noteq> CHR ''T''"
  by (rule digitChar_not_T) simp_all

lemma pad2_no_T: "CHR ''T'' \<notin> set (pad2 n)"
  using digit_mod_not_T[of n] digit_mod_not_T[of "n div 10"] by (auto simp: pad2_def)

lemma pad3_no_T: "CHR ''T'' \<notin> set (pad3 n)"
  using digit_mod_not_T[of "n div 100"] pad2_no_T[of n] by (auto simp: pad3_def)

lemma pad4_no_T: "CHR ''T'' \<notin> set (pad4 n)"
  using digit_mod_not_T[of "n div 1000"] pad3_no_T[of n] by (auto simp: pad4_def)

lemma pad6_no_T: "CHR ''T'' \<notin> set (pad6 n)"
  using digit_mod_not_T[of "n div 100000"] digit_mod_not_T[of "n div 10000"] pad4_no_T[of n]
  by (auto simp: pad6_def)

lemma isoYear_no_T: "CHR ''T'' \<notin> set (isoYear y)"
  using pad4_no_T[of y] pad6_no_T[of "\<bar>y\<bar>"] by (auto simp: isoYear_def)

lemma dateText_no_T: "CHR ''T'' \<notin> set (dateText z)"
proof -
  obtain y m d where c: "civilFromDays z = (y, m, d)" by (cases "civilFromDays z") auto
  show ?thesis
    using isoYear_no_T[of y] pad2_no_T[of m] pad2_no_T[of d] by (simp add: dateText_def c)
qed

lemma isoDate_utcDay: "isoDate t = dateText (utcDay t)"
proof -
  have "\<forall>c\<in>set (dateText (utcDay t)). c \<noteq> CHR ''T''" using dateText_no_T by blast
  then have "takeWhile (\<lambda>c. c \<noteq> CHR ''T'') (dateText (utcDay t) @ CHR ''T'' # r) =
             dateText (utcDay t)" for r
    by (simp add: takeWhile_append2)
  then show ?thesis by (simp add: isoDate_def beforeT_def toISOString_def utcDay_def)
qed


lemma digitChar_read:
  assumes "0 \<le> k" "k \<le> 9"
  shows "isDigit (digitChar k)" "int (of_char (digitChar k)) - 48 = k"
proof -
  have "48 + nat k < 256" using assms by linarith
  then have v: "(of_char (char_of (48 + nat k) :: char) :: nat) = 48 + nat k" by simp
  show "isDigit (digitChar k)" using assms unfolding isDigit_def digitChar_def Let_def v by linarith
  show "int (of_char (digitChar k)) - 48 = k"
    using assms unfolding digitChar_def v by simp
qed

lemma digit_mod_read:
  "isDigit (digitChar (x mod 10))" "int (of_char (digitChar (x mod 10))) - 48 = x mod 10"
  by (rule digitChar_read; simp)+

lemma length_pads: "length (pad2 n) = 2" "length (pad3 n) = 3" "length (pad4 n) = 4"
  by (simp_all add: pad2_def pad3_def pad4_def)

lemma pads_digits:
  "list_all isDigit (pad2 n)" "list_all isDigit (pad3 n)" "list_all isDigit (pad4 n)"
  by (simp_all add: pad2_def pad3_def pad4_def digit_mod_read(1))

lemma pad2_value: "digitsVal (pad2 n) = 10 * (n div 10 mod 10) + n mod 10"
  by (simp add: pad2_def digitsVal_def digit_mod_read(2))

lemma pad3_value:
  "digitsVal (pad3 n) = 100 * (n div 100 mod 10) + 10 * (n div 10 mod 10) + n mod 10"
  by (simp add: pad3_def pad2_def digitsVal_def digit_mod_read(2))

lemma pad4_value:
  "digitsVal (pad4 n) =
     1000 * (n div 1000 mod 10) + 100 * (n div 100 mod 10) + 10 * (n div 10 mod 10) + n mod 10"
  by (simp add: pad4_def pad3_def pad2_def digitsVal_def digit_mod_read(2))

lemma mod_100: "(n::int) mod 100 = 10 * (n div 10 mod 10) + n mod 10"
  using zmod_zmult2_eq[of 10 n 10] by simp

lemma mod_1000: "(n::int) mod 1000 = 100 * (n div 100 mod 10) + n mod 100"
  using zmod_zmult2_eq[of 10 n 100] by simp

lemma pad2_read:
  assumes "0 \<le> n" "n \<le> 99"
  shows "digitsVal (pad2 n) = n"
proof -
  have "digitsVal (pad2 n) = n mod 100" by (simp only: pad2_value mod_100)
  also have "\<dots> = n" using assms by simp
  finally show ?thesis .
qed

lemma pad3_read:
  assumes "0 \<le> n" "n \<le> 999"
  shows "digitsVal (pad3 n) = n"
proof -
  have "digitsVal (pad3 n) = n mod 1000" by (simp only: pad3_value mod_1000 mod_100 add.assoc)
  also have "\<dots> = n" using assms by simp
  finally show ?thesis .
qed

lemma pad4_read:
  assumes "0 \<le> n" "n \<le> 9999"
  shows "digitsVal (pad4 n) = n"
proof -
  have "n div 1000 \<le> 9" using assms by linarith
  moreover have "0 \<le> n div 1000" using assms by simp
  ultimately have t: "n div 1000 mod 10 = n div 1000" by simp
  have "digitsVal (pad4 n) = 1000 * (n div 1000) + n mod 1000"
    by (simp only: pad4_value mod_1000 mod_100 add.assoc t)
  also have "\<dots> = n" by simp
  finally show ?thesis .
qed


lemma readDate_parts:
  assumes "length a = 4" "length b = 2" "length c = 2"
    and "list_all isDigit a" "list_all isDigit b" "list_all isDigit c"
  shows "readDate (a @ ''-'' @ b @ ''-'' @ c) =
     (if 1 \<le> digitsVal b \<and> digitsVal b \<le> 12 \<and> 1 \<le> digitsVal c \<and>
         digitsVal c \<le> daysInMonth (digitsVal a) (digitsVal b)
      then Some (digitsVal a, digitsVal b, digitsVal c) else None)"
  using assms by (simp add: readDate_def nth_append Let_def)

lemma daysInMonth_le: "daysInMonth y m \<le> 31"
  by (simp add: daysInMonth_def)

lemma day_split:
  "t = utcDay t * 86400000 + t mod msPerDay" "0 \<le> t mod msPerDay" "t mod msPerDay < 86400000"
  by (simp_all add: utcDay_def msPerDay_def)

lemma utcDay_range:
  assumes "fourDigitYear t"
  shows "- 719528 \<le> utcDay t" "utcDay t \<le> 2932896"
  using assms day_split[of t] unfolding fourDigitYear_def by linarith+

lemma readDate_dateText:
  assumes "- 719528 \<le> D" "D \<le> 2932896"
  shows "readDate (dateText D) = Some (civilFromDays D)"
proof -
  obtain y m d where civ: "civilFromDays D = (y, m, d)" by (cases "civilFromDays D") auto
  from civil_correct[OF civ] assms
  have m: "1 \<le> m" "m \<le> 12" and d: "1 \<le> d" "d \<le> daysInMonth y m" and y: "0 \<le> y" "y \<le> 9999"
    by simp_all
  have d31: "d \<le> 31" using d(2) daysInMonth_le[of y m] by linarith
  have dt: "dateText D = pad4 y @ ''-'' @ pad2 m @ ''-'' @ pad2 d"
    using y by (simp add: dateText_def civ isoYear_def)
  have vy: "digitsVal (pad4 y) = y" by (rule pad4_read[OF y])
  have vm: "digitsVal (pad2 m) = m" by (rule pad2_read) (use m in simp_all)
  have vd: "digitsVal (pad2 d) = d" by (rule pad2_read) (use d d31 in simp_all)
  show ?thesis
    unfolding dt civ
    by (subst readDate_parts) (simp_all add: length_pads pads_digits vy vm vd m d)
qed

lemma dateText_inj:
  assumes "- 719528 \<le> D" "D \<le> 2932896" "- 719528 \<le> E" "E \<le> 2932896"
    and "dateText D = dateText E"
  shows "D = E"
proof -
  have "Some (civilFromDays D) = Some (civilFromDays E)"
    using readDate_dateText[OF assms(1,2)] readDate_dateText[OF assms(3,4)] assms(5) by simp
  then have e: "civilFromDays D = civilFromDays E" by simp
  obtain y m d where civ: "civilFromDays D = (y, m, d)" by (cases "civilFromDays D") auto
  from civil_correct[OF civ] have "daysFromCivil y m d = D" by simp
  moreover from civil_correct[OF civ[unfolded e]] have "daysFromCivil y m d = E" by simp
  ultimately show ?thesis by simp
qed

lemma parseDate_dateText:
  assumes "- 719528 \<le> D" "D \<le> 2932896"
  shows "parseDate (dateText D) = Some (D * msPerDay)"
proof -
  obtain y m d where civ: "civilFromDays D = (y, m, d)" by (cases "civilFromDays D") auto
  from civil_correct[OF civ] have "daysFromCivil y m d = D" by simp
  then show ?thesis by (simp add: parseDate_def readDate_dateText[OF assms] civ)
qed

lemma length_dateText:
  assumes "- 719528 \<le> D" "D \<le> 2932896"
  shows "length (dateText D) = 10"
proof -
  obtain y m d where civ: "civilFromDays D = (y, m, d)" by (cases "civilFromDays D") auto
  from civil_correct[OF civ] assms have "0 \<le> y" "y \<le> 9999" by simp_all
  then show ?thesis by (simp add: dateText_def civ isoYear_def length_pads)
qed


lemma readTime_parts:
  assumes "length a = 2" "length b = 2" "length c = 2" "length e = 3"
    and "list_all isDigit a" "list_all isDigit b" "list_all isDigit c" "list_all isDigit e"
  shows "readTime (a @ '':'' @ b @ '':'' @ c @ ''.'' @ e @ ''Z'') =
     (if digitsVal a \<le> 23 \<and> digitsVal b \<le> 59 \<and> digitsVal c \<le> 59
      then Some (digitsVal a * 3600000 + digitsVal b * 60000 + digitsVal c * 1000 + digitsVal e)
      else None)"
  using assms by (simp add: readTime_def nth_append Let_def)

lemma time_split:
  fixes r :: int
  shows "r div 3600000 * 3600000 + r div 60000 mod 60 * 60000 + r div 1000 mod 60 * 1000 +
         r mod 1000 = r"
proof -
  have a: "r div 60000 = r div 1000 div 60" using zdiv_zmult2_eq[of 60 r 1000] by simp
  have b: "r div 3600000 = r div 60000 div 60" using zdiv_zmult2_eq[of 60 r 60000] by simp
  have "r div 60000 div 60 * 60 + r div 60000 mod 60 = r div 60000" by simp
  then have c: "r div 3600000 * 60 + r div 60000 mod 60 = r div 60000" by (simp only: b)
  have "r div 1000 div 60 * 60 + r div 1000 mod 60 = r div 1000" by simp
  then have d: "r div 60000 * 60 + r div 1000 mod 60 = r div 1000" by (simp only: a)
  have e: "r div 1000 * 1000 + r mod 1000 = r" by simp
  from c d e show ?thesis by linarith
qed

lemma readTime_timeText:
  assumes "0 \<le> r" "r < 86400000"
  shows "readTime (timeText r @ ''Z'') = Some r"
proof -
  have h: "0 \<le> r div 3600000" "r div 3600000 \<le> 23" using assms by simp_all
  have vh: "digitsVal (pad2 (r div 3600000)) = r div 3600000"
    by (rule pad2_read) (use h in simp_all)
  have vm: "digitsVal (pad2 (r div 60000 mod 60)) = r div 60000 mod 60"
    by (rule pad2_read) (simp, use pos_mod_bound[of 60 "r div 60000"] in linarith)
  have vs: "digitsVal (pad2 (r div 1000 mod 60)) = r div 1000 mod 60"
    by (rule pad2_read) (simp, use pos_mod_bound[of 60 "r div 1000"] in linarith)
  have vms: "digitsVal (pad3 (r mod 1000)) = r mod 1000"
    by (rule pad3_read) (simp, use pos_mod_bound[of 1000 r] in linarith)
  have m59: "r div 60000 mod 60 \<le> 59" using pos_mod_bound[of 60 "r div 60000"] by linarith
  have s59: "r div 1000 mod 60 \<le> 59" using pos_mod_bound[of 60 "r div 1000"] by linarith
  have "readTime (timeText r @ ''Z'') =
        Some (r div 3600000 * 3600000 + r div 60000 mod 60 * 60000 + r div 1000 mod 60 * 1000 +
              r mod 1000)"
    unfolding timeText_def append_assoc
    by (subst readTime_parts) (simp_all add: length_pads pads_digits vh vm vs vms h m59 s59)
  then show ?thesis by (simp only: time_split)
qed

lemma length_timeText: "length (timeText r) = 12"
  by (simp add: timeText_def length_pads)

lemma parseTimestamp_toISOString:
  assumes "fourDigitYear t"
  shows "parseTimestamp (toISOString t) = Some t"
proof -
  note D = utcDay_range[OF assms]
  let ?d = "dateText (utcDay t)" and ?r = "t mod msPerDay"
  have len: "length ?d = 10" by (rule length_dateText[OF D])
  have iso: "toISOString t = ?d @ ''T'' @ timeText ?r @ ''Z''"
    by (simp add: toISOString_def utcDay_def)
  have l24: "length (toISOString t) = 24" by (simp add: iso len length_timeText)
  have t10: "toISOString t ! 10 = CHR ''T''" by (simp add: iso nth_append len)
  have tk: "take 10 (toISOString t) = ?d" by (simp add: iso len)
  have dr: "drop 11 (toISOString t) = timeText ?r @ ''Z''" by (simp add: iso len)
  obtain y m d where civ: "civilFromDays (utcDay t) = (y, m, d)"
    by (cases "civilFromDays (utcDay t)") auto
  from civil_correct[OF civ] have inv: "daysFromCivil y m d = utcDay t" by simp
  have rd: "readDate ?d = Some (y, m, d)" using readDate_dateText[OF D] civ by simp
  have rt: "readTime (timeText ?r @ ''Z'') = Some ?r"
    by (rule readTime_timeText) (use day_split[of t] in simp_all)
  have "parseTimestamp (toISOString t) = Some (utcDay t * msPerDay + ?r)"
    by (simp add: parseTimestamp_def l24 t10 tk dr rd rt inv)
  then show ?thesis by (simp add: utcDay_def)
qed

lemma sqlDate_toISOString:
  assumes "fourDigitYear t"
  shows "sqlDate (toISOString t) = Some (dateText (utcDay t))"
proof -
  have "take 10 (toISOString t) = dateText (utcDay t)"
    using length_dateText[OF utcDay_range[OF assms]] by (simp add: toISOString_def utcDay_def)
  then show ?thesis by (simp add: sqlDate_def parseTimestamp_toISOString[OF assms])
qed

lemma same_day_text:
  assumes "fourDigitYear t" "fourDigitYear now"
  shows "sqlDate (toISOString t) = Some (isoDate now) \<longleftrightarrow> utcDay t = utcDay now"
  using dateText_inj[OF utcDay_range[OF assms(1)] utcDay_range[OF assms(2)]]
  by (auto simp: sqlDate_toISOString[OF assms(1)] isoDate_utcDay)








lemma month_start:
  assumes "1 \<le> m" "m \<le> 12"
  shows "(153 * eraMonth m + 2) div 5 =
     (if m = 1 then 306 else if m = 2 then 337 else if m = 3 then 0 else if m = 4 then 31
      else if m = 5 then 61 else if m = 6 then 92 else if m = 7 then 122 else if m = 8 then 153
      else if m = 9 then 184 else if m = 10 then 214 else if m = 11 then 245 else 275)"
proof -
  have "m = 1 \<or> m = 2 \<or> m = 3 \<or> m = 4 \<or> m = 5 \<or> m = 6 \<or> m = 7 \<or> m = 8 \<or> m = 9 \<or> m = 10 \<or>
        m = 11 \<or> m = 12"
    using assms by presburger
  then show ?thesis by (elim disjE) (simp_all add: eraMonth_def)
qed




















lemma appWritten_instant:
  assumes "appWritten m"
  obtains t where "fourDigitYear t" "createdAt m = toISOString t"
    "parseTimestamp (createdAt m) = Some t"
  using assms by (auto simp: appWritten_def split: option.splits)




lemma appWritten_same_day:
  assumes "appWritten m" "fourDigitYear now"
  shows "sqlDate (createdAt m) = Some (isoDate now) \<longleftrightarrow> utcDayOf m = Some (utcDay now)"
proof -
  obtain t where t: "fourDigitYear t" "createdAt m = toISOString t"
    "parseTimestamp (createdAt m) = Some t"
    using assms(1) by (rule appWritten_instant)
  show ?thesis using same_day_text[OF t(1) assms(2)] by (simp add: t(2)[symmetric] utcDayOf_def t(3))
qed


section \<open>Contextual suggestions\<close>

lemma take_orderByDesc_Nil_iff: "0 < n \<Longrightarrow> take n (orderByDesc f xs) = [] \<longleftrightarrow> xs = []"
  by (simp add: take_eq_Nil orderByDesc_Nil_iff)



lemma orderByDesc_Nil: "orderByDesc f [] = []"
  by (simp add: orderByDesc_def)




lemma fixedOffset_localDay: "LocalTime (fixedOffset tz) t div msPerDay = localDay tz t"
  by (simp add: LocalTime_def fixedOffset_def localDay_def)

lemma previous_day_across_change:
  "getHours sydney 1712448000000 = 10 \<and>
   setDate sydney 1712448000000 (getDate sydney 1712448000000 - 1) =
     1712448000000 - 25 * 3600000 \<and>
   isoDate (setDate sydney 1712448000000 (getDate sydney 1712448000000 - 1)) = ''2024-04-05'' \<and>
   isoDate (1712448000000 - msPerDay) = ''2024-04-06''"
  by code_simp


lemma suggestionsAt_afternoon:
  "\<not> h < 12 \<Longrightarrow> h < 17 \<Longrightarrow>
   suggestionsAt h z now s = take 5 (orderByDesc createdAt (memories s))"
  unfolding suggestionsAt_def getRecentMemories_def Let_def
  by simp






section \<open>Counting the memories of today\<close>

text \<open>
  Claim C6, as stated, counts the records whose \<^verbatim>\<open>createdAt\<close> falls on the current
  local calendar date. On a device five hours east of UTC, at 2024-01-01T21:00:00Z (local
  time 02:00 on 2 January), the note captured at 2024-01-01T08:00:00Z (local time 13:00 on
  1 January) is not of the current local date, and is counted all the same.
\<close>

theorem today_count_counterexample:
  "createdAt (hd (memories milkStore)) = toISOString 1704096000000 \<and>
   localDay 300 1704096000000 \<noteq> localDay 300 1704142800000 \<and>
   getTodayMemoryCount 1704142800000 milkStore = 1"
  by code_simp

text \<open>
  Claim C6, amended. \<^verbatim>\<open>getTodayMemoryCount\<close> returns the number of records whose
  \<^verbatim>\<open>createdAt\<close> has the date text of the current UTC calendar day; for records the
  application wrote that is the number of records whose instant lies on the UTC day of
  now. The device's time zone plays no part, and two instants of one UTC day give the
  same count. After the note "Buy
  milk" is added at 2024-01-01T08:00:00Z, the count is 1 at every instant of 2024-01-01
  (UTC) and 0 at every instant of 2024-01-02 (UTC).
\<close>

theorem today_count_utc:
  "getTodayMemoryCount now s =
     length (filter (\<lambda>m. sqlDate (createdAt m) = Some (dateText (utcDay now))) (memories s)) \<and>
   (fourDigitYear now \<and> list_all appWritten (memories s) \<longrightarrow>
      getTodayMemoryCount now s =
        length (filter (\<lambda>m. utcDayOf m = Some (utcDay now)) (memories s))) \<and>
   (utcDay now = utcDay now' \<longrightarrow> getTodayMemoryCount now s = getTodayMemoryCount now' s) \<and>
   memories milkStore = [insertedRow 1 (newText ''Buy milk'' ''2024-01-01T08:00:00.000Z'')] \<and>
   (1704067200000 \<le> now \<and> now < 1704153600000 \<longrightarrow> getTodayMemoryCount now milkStore = 1) \<and>
   (1704153600000 \<le> now \<and> now < 1704240000000 \<longrightarrow> getTodayMemoryCount now milkStore = 0)"
proof (intro conjI impI)
  show c: "getTodayMemoryCount now s =
     length (filter (\<lambda>m. sqlDate (createdAt m) = Some (dateText (utcDay now))) (memories s))"
    for now s
    by (simp add: getTodayMemoryCount_def isoDate_utcDay)
  show "getTodayMemoryCount now s =
        length (filter (\<lambda>m. utcDayOf m = Some (utcDay now)) (memories s))"
    if a: "fourDigitYear now \<and> list_all appWritten (memories s)"
  proof -
    have "filter (\<lambda>m. sqlDate (createdAt m) = Some (isoDate now)) (memories s) =
          filter (\<lambda>m. utcDayOf m = Some (utcDay now)) (memories s)"
    proof (rule filter_cong[OF refl])
      fix m assume "m \<in> set (memories s)"
      then have "appWritten m" using a by (simp add: list_all_iff)
      then show "(sqlDate (createdAt m) = Some (isoDate now)) =
                 (utcDayOf m = Some (utcDay now))"
        using a by (intro appWritten_same_day) simp_all
    qed
    then show ?thesis by (simp add: getTodayMemoryCount_def)
  qed
  show "getTodayMemoryCount now s = getTodayMemoryCount now' s" if "utcDay now = utcDay now'"
    using that by (simp add: c)
  show m: "memories milkStore = [insertedRow 1 (newText ''Buy milk'' ''2024-01-01T08:00:00.000Z'')]"
    by code_simp
  have d1: "dateText 19723 = ''2024-01-01''" by code_simp
  have d2: "dateText 19724 = ''2024-01-02''" by code_simp
  have sq: "sqlDate ''2024-01-01T08:00:00.000Z'' = Some ''2024-01-01''" by code_simp
  show "getTodayMemoryCount now milkStore = 1"
    if "1704067200000 \<le> now \<and> now < 1704153600000"
  proof -
    have "utcDay now = 19723" using that unfolding utcDay_def msPerDay_def by linarith
    then show ?thesis by (simp add: c m d1 sq insertedRow_def newText_def)
  qed
  show "getTodayMemoryCount now milkStore = 0"
    if "1704153600000 \<le> now \<and> now < 1704240000000"
  proof -
    have "utcDay now = 19724" using that unfolding utcDay_def msPerDay_def by linarith
    then show ?thesis by (simp add: c m d2 sq insertedRow_def newText_def)
  qed
qed

theorem today_count_utc_witness:
  "utcDay 1704096000000 = utcDay 1704142800000 \<and>
   fourDigitYear 1704142800000 \<and> list_all appWritten (memories milkStore) \<and>
   map utcDayOf (memories milkStore) = [Some (utcDay 1704142800000)] \<and>
   getTodayMemoryCount 1704142800000 milkStore = 1 \<and>
   getTodayMemoryCount 1704186000000 milkStore = 0"
proof -
  have a: "(1704067200000::int) \<le> 1704142800000 \<and> (1704142800000::int) < 1704153600000" by simp
  have b: "(1704153600000::int) \<le> 1704186000000 \<and> (1704186000000::int) < 1704240000000" by simp
  have u: "utcDay 1704096000000 = utcDay 1704142800000" by (simp add: utcDay_def msPerDay_def)
  have w: "fourDigitYear 1704142800000 \<and> list_all appWritten (memories milkStore) \<and>
     map utcDayOf (memories milkStore) = [Some (utcDay 1704142800000)]" by code_simp
  have "(1704067200000 \<le> (1704142800000::int) \<and> (1704142800000::int) < 1704153600000 \<longrightarrow>
         getTodayMemoryCount 1704142800000 milkStore = 1)"
    using today_count_utc[where now = 1704142800000 and now' = 1704096000000 and s = milkStore]
    by (elim conjE)
  moreover have "(1704153600000 \<le> (1704186000000::int) \<and> (1704186000000::int) < 1704240000000 \<longrightarrow>
         getTodayMemoryCount 1704186000000 milkStore = 0)"
    using today_count_utc[where now = 1704186000000 and now' = 1704096000000 and s = milkStore]
    by (elim conjE)
  ultimately show ?thesis using a b u w by simp
qed


section \<open>The two stores compared\<close>

text \<open>
  Claim C9, as stated, has the two stores select the same records in their derived views.
  They do not. For the one note "travel" and the goal "work travel", the relational store's
  filter keeps the note (the keyword "travel" occurs in it) and the reducer store's filter
  drops it (the goal as a whole does not occur in the title). At hour 9 of 2024-01-02, the
  relational store suggests the note (it is dated yesterday) and the reducer store suggests
  nothing (the note is 25 hours old).
\<close>

theorem stores_differ_counterexample:
  "list_all2 sameRecord (getAllMemories oneTravel) [travelItem] \<and>
   length (filterMemories ''work travel'' oneTravel) = 1 \<and>
   filteredItems (Some ''work travel'') [travelItem] = [] \<and>
   length (suggestionsAt 9 (fixedOffset 0) 1704186000000 oneTravel) = 1 \<and>
   getSmartSuggestions 9 1704186000000 [travelItem] = []"
  by code_simp

lemma list_all2_filter:
  "list_all2 R xs ys \<Longrightarrow> (\<And>x y. R x y \<Longrightarrow> p x = q y) \<Longrightarrow>
   list_all2 R (filter p xs) (filter q ys)"
  by (induction rule: list_all2_induct) auto

lemma lower_no_space: "\<forall>c\<in>set g. \<not> isSpace c \<Longrightarrow> \<forall>c\<in>set (toLowerCase g). \<not> isSpace c"
  by (auto simp: toLowerCase_def isSpace_lowerChar)

lemma single_keyword:
  "\<forall>c\<in>set g. \<not> isSpace c \<Longrightarrow> splitWs (toLowerCase g) = [toLowerCase g]"
  by (rule splitWs_no_space[OF lower_no_space])

lemma toLowerCase_Nil_iff: "toLowerCase g = [] \<longleftrightarrow> g = []"
  by (simp add: toLowerCase_def)

lemma sameRecord_single_keyword:
  assumes "sameRecord m item" "g \<noteq> []"
  shows "matchesKeywords [toLowerCase g] m = itemMatches (toLowerCase g) item"
proof (cases "focusTags m")
  case None
  then have "tags item = None" using assms(1) by (simp add: sameRecord_def)
  moreover have "title item = content m" using assms(1) by (simp add: sameRecord_def)
  ultimately show ?thesis using None assms(2)
    by (simp add: matchesKeywords_def itemMatches_def toLowerCase_Nil_iff)
next
  case (Some t)
  then have "tags item = Some [t]" using assms(1) by (simp add: sameRecord_def)
  moreover have "title item = content m" using assms(1) by (simp add: sameRecord_def)
  ultimately show ?thesis using Some by (simp add: matchesKeywords_def itemMatches_def)
qed

lemma sameRecord_any_goal:
  assumes sr: "sameRecord m item" and im: "itemMatches (toLowerCase g) item"
  shows "matchesKeywords (splitWs (toLowerCase g)) m"
proof -
  let ?lg = "toLowerCase g"
  obtain k where k: "k \<in> set (splitWs ?lg)"
    using splitWs_not_Nil[of ?lg] by (cases "splitWs ?lg") auto
  then have kl: "sublist k ?lg" by (rule splitWs_pieces_sublist)
  have t: "title item = content m" using sr by (simp add: sameRecord_def)
  from im have "sublist ?lg (toLowerCase (content m)) \<or>
     sublist ?lg (toLowerCase (case focusTags m of None \<Rightarrow> [] | Some t \<Rightarrow> t))"
  proof (cases "focusTags m")
    case None
    then have "tags item = None" using sr by (simp add: sameRecord_def)
    with im t show ?thesis by (simp add: itemMatches_def str_includes_sublist)
  next
    case (Some x)
    then have "tags item = Some [x]" using sr by (simp add: sameRecord_def)
    with im t Some show ?thesis by (simp add: itemMatches_def str_includes_sublist)
  qed
  then have "sublist k (toLowerCase (content m)) \<or>
     sublist k (toLowerCase (case focusTags m of None \<Rightarrow> [] | Some t \<Rightarrow> t))"
    using kl sublist_order.order_trans by blast
  with k show ?thesis unfolding matchesKeywords_iff by blast
qed

text \<open>
  Claim C9, amended. The two stores offer the same kinds of views under different rules:
  the relational store matches any whitespace-separated keyword of the goal name against
  content and tag text; the reducer store matches the whole goal name against title and
  tags. For the same logical records (each item's title is the record's content, its tags
  the record's tag text) their focus filters select the same records when the goal name
  contains no whitespace; for every goal name a record kept by the reducer store's filter
  is kept by the relational store's filter; and in the afternoon (12 \<le> h < 17) the
  reducer store suggests the first three of the relational store's suggestions.
\<close>

theorem stores_agree_on_single_keyword:
  assumes rel: "list_all2 sameRecord (getAllMemories s) items"
  shows "((\<forall>c\<in>set g. \<not> isSpace c) \<longrightarrow>
            list_all2 sameRecord (filterMemories g s) (filteredItems (Some g) items)) \<and>
         list_all2 (\<lambda>m item. itemMatches (toLowerCase g) item \<longrightarrow>
                              matchesKeywords (splitWs (toLowerCase g)) m)
           (getAllMemories s) items \<and>
         (12 \<le> h \<and> h < 17 \<longrightarrow>
            list_all2 sameRecord (take 3 (suggestionsAt h z now s))
              (getSmartSuggestions h now items))"
proof (intro conjI impI)
  assume ns: "\<forall>c\<in>set g. \<not> isSpace c"
  show "list_all2 sameRecord (filterMemories g s) (filteredItems (Some g) items)"
  proof (cases "g = []")
    case True
    have "\<forall>c\<in>set g. isSpace c" using True by simp
    then have e: "[] \<in> set (splitWs (toLowerCase g))" by (rule blank_has_empty_keyword)
    have "matchesKeywords (splitWs (toLowerCase g)) m" for m
      unfolding matchesKeywords_iff using e by (intro bexI[of _ "[]"]) simp_all
    then have "filterMemories g s = getAllMemories s" by (simp add: filterMemories_def)
    with rel True show ?thesis by (simp add: filteredItems_def)
  next
    case False
    have "filterMemories g s = filter (matchesKeywords [toLowerCase g]) (getAllMemories s)"
      by (simp add: filterMemories_def single_keyword[OF ns])
    moreover have "filteredItems (Some g) items = filter (itemMatches (toLowerCase g)) items"
      using False by (simp add: filteredItems_def)
    moreover have "list_all2 sameRecord (filter (matchesKeywords [toLowerCase g]) (getAllMemories s))
                     (filter (itemMatches (toLowerCase g)) items)"
      by (rule list_all2_filter[OF rel]) (rule sameRecord_single_keyword[OF _ False])
    ultimately show ?thesis by simp
  qed
next
  show "list_all2 (\<lambda>m item. itemMatches (toLowerCase g) item \<longrightarrow>
                              matchesKeywords (splitWs (toLowerCase g)) m)
           (getAllMemories s) items"
    by (rule list_all2_mono[OF rel]) (auto intro: sameRecord_any_goal)
next
  assume h: "12 \<le> h \<and> h < 17"
  then have "suggestionsAt h z now s = take 5 (getAllMemories s)"
    by (simp add: suggestionsAt_afternoon getAllMemories_def)
  moreover have "getSmartSuggestions h now items = take 3 items"
    using h by (simp add: getSmartSuggestions_def getTimeBucket_def)
  ultimately show "list_all2 sameRecord (take 3 (suggestionsAt h z now s))
              (getSmartSuggestions h now items)"
    using list_all2_takeI[OF rel, of 3] by simp
qed


theorem stores_agree_on_single_keyword_witness:
  "list_all2 sameRecord (getAllMemories twoNotes) twoItems \<and>
   list_all (\<lambda>c. \<not> isSpace c) ''Travel'' \<and>
   list_all2 sameRecord (filterMemories ''Travel'' twoNotes)
     (filteredItems (Some ''Travel'') twoItems) \<and>
   map content (filterMemories ''Travel'' twoNotes) = [''Book flights''] \<and>
   list_all2 sameRecord (take 3 (suggestionsAt 14 (fixedOffset 0) 0 twoNotes)) (getSmartSuggestions 14 0 twoItems)"
proof -
  have rel: "list_all2 sameRecord (getAllMemories twoNotes) twoItems" by code_simp
  have ns: "\<forall>c\<in>set ''Travel''. \<not> isSpace c" by code_simp
  have c: "map content (filterMemories ''Travel'' twoNotes) = [''Book flights'']" by code_simp
  have h: "(12::int) \<le> 14 \<and> (14::int) < 17" by simp
  note th = stores_agree_on_single_keyword[OF rel, where g = "''Travel''" and h = 14 and now = 0
      and z = "fixedOffset 0"]
  have "(\<forall>c\<in>set ''Travel''. \<not> isSpace c) \<longrightarrow>
      list_all2 sameRecord (filterMemories ''Travel'' twoNotes)
        (filteredItems (Some ''Travel'') twoItems)"
    using th by (elim conjE)
  then have a: "list_all2 sameRecord (filterMemories ''Travel'' twoNotes)
     (filteredItems (Some ''Travel'') twoItems)"
    using ns by (rule mp)
  have "(12::int) \<le> 14 \<and> (14::int) < 17 \<longrightarrow>
      list_all2 sameRecord (take 3 (suggestionsAt 14 (fixedOffset 0) 0 twoNotes))
        (getSmartSuggestions 14 0 twoItems)"
    using th by (elim conjE)
  then have b: "list_all2 sameRecord (take 3 (suggestionsAt 14 (fixedOffset 0) 0 twoNotes))
     (getSmartSuggestions 14 0 twoItems)"
    using h by (rule mp)
  from rel ns a b c show ?thesis by (simp add: list_all_iff)
qed


section \<open>Timeline grouping\<close>










lemma date_groups:
  "map date (groupMemoriesByDate tz now ms) = map fst (orderByDesc fst (groupsOf ms))"
  by (simp add: groupMemoriesByDate_def case_prod_beta comp_def)

lemma localDay_midnight:
  assumes "0 \<le> tz" "tz < 1440"
  shows "localDay tz (D * msPerDay) = D"
proof -
  have "0 \<le> tz * 60000" "tz * 60000 < 86400000" using assms by simp_all
  then have "(tz * 60000 + D * 86400000) div 86400000 = D"
    by (simp add: div_pos_pos_trivial)
  then show ?thesis by (simp add: localDay_def msPerDay_def add.commute)
qed

lemma localDay_yesterday: "localDay tz (now - msPerDay) = localDay tz now - 1"
  using div_add_self2[of "86400000::int" "now + tz * 60000 - 86400000"]
  by (simp add: localDay_def msPerDay_def algebra_simps)

lemma formatDate_east:
  assumes "0 \<le> tz" "tz < 1440" "readDate d = Some (y, m, dd)"
  shows "formatDate tz now d =
     (if daysFromCivil y m dd = localDay tz now then ''Today''
      else if daysFromCivil y m dd = localDay tz now - 1 then ''Yesterday''
      else toLocaleDateString tz (Some (daysFromCivil y m dd * msPerDay)))"
  using assms
  by (simp add: formatDate_def parseDate_def toDateString_def localDay_midnight
      localDay_yesterday Let_def)





lemma localDay_midnight_west:
  assumes "- 1440 < tz" "tz < 0"
  shows "localDay tz (D * msPerDay) = D - 1"
proof -
  have "tz * 60000 + D * 86400000 = 86400000 * (D - 1) + (tz * 60000 + 86400000)" by simp
  then have "(tz * 60000 + D * 86400000) div 86400000 = D - 1"
    by (rule div_unique_int) (use assms in simp_all)
  then show ?thesis by (simp add: localDay_def msPerDay_def add.commute)
qed

text \<open>
  West of UTC the date of a group, read as midnight UTC, lies on the local day before: the
  group of the current local date is labelled "Yesterday". At 2024-01-02T15:00:00Z on a
  device five hours west of UTC (local time 10:00), the group of a note captured an hour
  before has that label.
\<close>

lemma formatDate_west:
  assumes "- 1440 < tz" "tz < 0" "- 719528 \<le> D" "D \<le> 2932896"
  shows "formatDate tz now (dateText D) =
     (if D = localDay tz now + 1 then ''Today''
      else if D = localDay tz now then ''Yesterday''
      else longDayName (D - 1))"
  using parseDate_dateText[OF assms(3,4)] assms(1,2)
  by (auto simp add: formatDate_def toDateString_def toLocaleDateString_def
      localDay_midnight_west localDay_yesterday Let_def)

lemma label_west_of_utc:
  "localDay (- 300) 1704204000000 = localDay (- 300) 1704207600000 \<and>
   map (\<lambda>g. (date g, formattedDate g, map content (data g)))
     (groupMemoriesByDate (- 300) 1704207600000
        [insertedRow 1 (newText ''a'' (toISOString 1704204000000))]) =
   [(''2024-01-02'', ''Yesterday'', [''a''])]"
  by code_simp






end
